(* ===== verification/Prelude.thy ===== *)
theory Prelude
  imports Complex_Main "HOL-Library.Word"
begin

text \<open>
  Shared vocabulary of the SecureEpiLinker development: the machine types the C++
  code uses (\<open>uint8_t\<close> bytes, the 32-bit circuit unit \<open>CircUnit\<close>, \<open>size_t\<close>),
  the error datatype into which every \<open>throw\<close>, failed \<open>assert\<close> and undefined
  operation of the sources is translated, and the generic lemmas on words, sums and
  lists that the component theories share.  The collection \<open>word_nat\<close> gathers the
  bridges from word arithmetic to \<open>nat\<close> arithmetic under a no-overflow bound.
\<close>

type_synonym byte = "8 word"
type_synonym circ_unit = "32 word"
type_synonym size_t = "64 word"
type_synonym bitmask = "byte list"
type_synonym field_name = string

text \<open>
  Errors.  \<open>OutOfRange\<close> is \<open>std::map::at\<close> on a missing key;
  \<open>ExchangeGroupsNotDistinct\<close>, \<open>ComparatorMismatch\<close>, \<open>BitsizeMismatch\<close> and
  \<open>PrecisionOverflow\<close> are the \<open>invalid_argument\<close>/\<open>runtime_error\<close> exceptions
  with these messages; \<open>SizeMismatch\<close> is \<open>check_vector_size\<close>; \<open>NotBuilt\<close> is
  the \<open>runtime_error\<close> of \<open>run_setup_phase\<close>; \<open>AssertFailed\<close> a failed
  \<open>assert\<close> (debug build); \<open>Undefined\<close> an operation with undefined behaviour in
  C++ (dereferencing \<open>begin()\<close> of an empty container, reading past a vector);
  \<open>BackendError\<close> a failure of the MPC backend (the two parties disagree on the
  shape of the circuit).
\<close>

datatype sel_error =
    OutOfRange
  | ExchangeGroupsNotDistinct
  | ComparatorMismatch
  | BitsizeMismatch
  | PrecisionOverflow
  | SizeMismatch
  | NotBuilt
  | AssertFailed
  | Undefined
  | BackendError

text \<open>\<open>std::map::at\<close> on an ordered map, modelled as an association list.\<close>

definition map_at :: "('k \<times> 'v) list \<Rightarrow> 'k \<Rightarrow> sel_error + 'v" where
  "map_at m k = (case map_of m k of None \<Rightarrow> Inl OutOfRange | Some v \<Rightarrow> Inr v)"

lemma map_at_Inr [simp]: "(map_at m k = Inr v) = (map_of m k = Some v)"
  by (simp add: map_at_def split: option.splits)

lemma map_at_Inl [simp]: "(map_at m k = Inl e) = (map_of m k = None \<and> e = OutOfRange)"
  by (auto simp: map_at_def split: option.splits)

text \<open>
  The two loops every component uses, in the error monad: a \<open>for\<close> loop over a list
  that threads a state and stops at the first exception (\<open>fold_sum\<close>), and a loop
  that collects one result per element (\<open>map_sum\<close>, \<open>transform\<close> or
  \<open>emplace_back\<close> in a loop).
\<close>

fun fold_sum :: "('s \<Rightarrow> 'a \<Rightarrow> sel_error + 's) \<Rightarrow> 'a list \<Rightarrow> 's \<Rightarrow> sel_error + 's" where
  "fold_sum f [] s = Inr s"
| "fold_sum f (x # xs) s = (case f s x of Inl e \<Rightarrow> Inl e | Inr s' \<Rightarrow> fold_sum f xs s')"

fun map_sum :: "('a \<Rightarrow> sel_error + 'b) \<Rightarrow> 'a list \<Rightarrow> sel_error + 'b list" where
  "map_sum f [] = Inr []"
| "map_sum f (x # xs) =
     (case f x of Inl e \<Rightarrow> Inl e | Inr y \<Rightarrow> (case map_sum f xs of Inl e \<Rightarrow> Inl e | Inr ys \<Rightarrow> Inr (y # ys)))"

text \<open>Sequencing in the error monad: the second computation runs on the first's result.\<close>

definition bind_sum :: "sel_error + 'a \<Rightarrow> ('a \<Rightarrow> sel_error + 'b) \<Rightarrow> sel_error + 'b" where
  "bind_sum m f = (case m of Inl e \<Rightarrow> Inl e | Inr x \<Rightarrow> f x)"

lemma bind_sum_simps [simp]:
  "bind_sum (Inl e) f = Inl e"
  "bind_sum (Inr x) f = f x"
  by (simp_all add: bind_sum_def)

lemma bind_sum_Inr: "bind_sum m f = Inr y \<longleftrightarrow> (\<exists>x. m = Inr x \<and> f x = Inr y)"
  by (cases m) simp_all

named_theorems word_nat "bridges from word arithmetic to nat arithmetic"

lemma map_of_Some_key: "map_of xs k = Some v \<Longrightarrow> k \<in> fst ` set xs"
  using map_of_eq_None_iff [of xs k] by auto

lemma key_map_of_Some: "k \<in> set (map fst xs) \<Longrightarrow> \<exists>v. map_of xs k = Some v"
  by (cases "map_of xs k") (auto simp: map_of_eq_None_iff)

subsection \<open>Words read as naturals\<close>

lemma unat_of_nat_small [word_nat]:
  "n < 2 ^ LENGTH('a) \<Longrightarrow> unat (of_nat n :: 'a::len word) = n"
  by (simp add: unat_of_nat)

lemma unat_add_small [word_nat]:
  "unat a + unat b < 2 ^ LENGTH('a) \<Longrightarrow> unat (a + b :: 'a::len word) = unat a + unat b"
  by (simp add: unat_add_lem)

lemma unat_mult_small [word_nat]:
  "unat a * unat b < 2 ^ LENGTH('a) \<Longrightarrow> unat (a * b :: 'a::len word) = unat a * unat b"
  by (simp add: unat_mult_lem)

lemma unat_mult_circ [word_nat]:
  "unat a * unat b < 2 ^ 32 \<Longrightarrow> unat (a * b :: circ_unit) = unat a * unat b"
  by (rule unat_mult_small) simp

lemma unat_add_circ [word_nat]:
  "unat a + unat b < 2 ^ 32 \<Longrightarrow> unat (a + b :: circ_unit) = unat a + unat b"
  by (rule unat_add_small) simp

lemma word_less_unat [word_nat]:
  "(a < (b :: 'a::len word)) = (unat a < unat b)"
  by (simp add: word_less_nat_alt)

lemma unat_sum_list_small [word_nat]:
  "sum_list (map unat ws) < 2 ^ LENGTH('a) \<Longrightarrow>
   unat (sum_list (ws :: 'a::len word list)) = sum_list (map unat ws)"
proof (induction ws)
  case Nil
  then show ?case by simp
next
  case (Cons w ws)
  then have ih: "unat (sum_list ws) = sum_list (map unat ws)" by simp
  with Cons.prems have "unat w + unat (sum_list ws) < 2 ^ LENGTH('a)" by simp
  then have "unat (w + sum_list ws) = unat w + unat (sum_list ws)"
    by (rule unat_add_small)
  with ih show ?case by simp
qed

lemma unat_of_bool [word_nat]: "unat (of_bool b :: 'a::len word) = of_bool b"
  by (cases b) simp_all

subsection \<open>The error-monad loops\<close>

lemma fold_sum_invariant:
  "(\<And>s x s'. P s \<Longrightarrow> x \<in> set xs \<Longrightarrow> f s x = Inr s' \<Longrightarrow> P s') \<Longrightarrow>
   P s \<Longrightarrow> fold_sum f xs s = Inr s' \<Longrightarrow> P s'"
proof (induction xs arbitrary: s)
  case Nil
  then show ?case by simp
next
  case (Cons x xs)
  obtain t where ft: "f s x = Inr t" and rest: "fold_sum f xs t = Inr s'"
    using Cons.prems(3) by (cases "f s x") simp_all
  have pt: "P t" using Cons.prems(1) [OF Cons.prems(2) _ ft] by simp
  have "\<And>s y s'. P s \<Longrightarrow> y \<in> set xs \<Longrightarrow> f s y = Inr s' \<Longrightarrow> P s'"
    using Cons.prems(1) by (metis list.set_intros(2))
  from Cons.IH [OF this pt rest] show ?case .
qed

lemma fold_sum_all_Inr:
  assumes "\<And>s x. x \<in> set xs \<Longrightarrow> f s x = Inr (g s x)"
  shows "fold_sum f xs s = Inr (fold (\<lambda>x s. g s x) xs s)"
  using assms by (induction xs arbitrary: s) simp_all

lemma fold_sum_Inl:
  "fold_sum f xs s = Inl e \<Longrightarrow> \<exists>x\<in>set xs. \<exists>t. f t x = Inl e"
proof (induction xs arbitrary: s)
  case Nil
  then show ?case by simp
next
  case (Cons x xs)
  show ?case
  proof (cases "f s x")
    case (Inl e')
    with Cons.prems have "f s x = Inl e" by simp
    then show ?thesis by (intro bexI [of _ x]) auto
  next
    case (Inr t)
    with Cons.prems have "fold_sum f xs t = Inl e" by simp
    then obtain y t' where "y \<in> set xs" "f t' y = Inl e" using Cons.IH by blast
    then show ?thesis by (intro bexI [of _ y]) auto
  qed
qed

lemma map_sum_Inr_length: "map_sum f xs = Inr ys \<Longrightarrow> length ys = length xs"
  by (induction xs arbitrary: ys) (auto split: sum.splits)

lemma map_sum_Inr_nth:
  "map_sum f xs = Inr ys \<Longrightarrow> i < length xs \<Longrightarrow> f (xs ! i) = Inr (ys ! i)"
proof (induction xs arbitrary: ys i)
  case Nil
  then show ?case by simp
next
  case (Cons x xs)
  then obtain y ys' where "f x = Inr y" "map_sum f xs = Inr ys'" "ys = y # ys'"
    by (auto split: sum.splits)
  with Cons show ?case by (cases i) simp_all
qed

lemma map_sum_all_Inr:
  "(\<And>x. x \<in> set xs \<Longrightarrow> f x = Inr (g x)) \<Longrightarrow> map_sum f xs = Inr (map g xs)"
  by (induction xs) simp_all

lemma map_sum_Inr_ex:
  "(\<And>x. x \<in> set xs \<Longrightarrow> \<exists>y. f x = Inr y) \<Longrightarrow> \<exists>ys. map_sum f xs = Inr ys"
proof (induction xs)
  case Nil
  then show ?case by simp
next
  case (Cons x xs)
  then obtain y ys where "f x = Inr y" "map_sum f xs = Inr ys" by fastforce
  then show ?case by simp
qed

lemma map_sum_Inl: "map_sum f xs = Inl e \<Longrightarrow> \<exists>x\<in>set xs. f x = Inl e"
  by (induction xs) (auto split: sum.splits)

subsection \<open>Sums over lists\<close>

lemma sum_list_map_le:
  "(\<And>x. x \<in> set xs \<Longrightarrow> f x \<le> (c :: nat)) \<Longrightarrow> sum_list (map f xs) \<le> length xs * c"
  by (induction xs) fastforce+

lemma sum_list_map_mono:
  "(\<And>x. x \<in> set xs \<Longrightarrow> f x \<le> (g x :: nat)) \<Longrightarrow> sum_list (map f xs) \<le> sum_list (map g xs)"
  by (induction xs) (auto intro: add_mono)

lemma count_list_map2_conj:
  "length xs = length ys \<Longrightarrow>
   count_list (map2 (\<and>) xs ys) True \<le> count_list xs True"
  by (induction xs ys rule: list_induct2) auto

lemma count_list_le_length: "count_list xs x \<le> length xs"
  by (induction xs) auto

end
