(* ===== verification/Numeric.thy ===== *)
theory Numeric
  imports Prelude
begin

text \<open>
  Numeric primitives (component C1): the byte-wise Hamming weight \<open>hw\<close> of
  \<open>secure_epilinker.cpp\<close>, the bit-width helpers \<open>ceil_log2\<close>,
  \<open>ceil_log2_min1\<close> (from \<open>math.h\<close>, which is not among the sources and is modelled
  from the spec), \<open>hw_size\<close> and \<open>bitbytes\<close>, the C library's \<open>llround\<close> and the
  weight rescaling \<open>rescale_weight\<close>/\<open>rescale_weights\<close> of \<open>epilink_input.cpp\<close>.
  Weights are C++ doubles; they are modelled as rationals, so the lemmas on rescaling
  hold for exact arithmetic and ignore floating-point rounding of the quotient.
\<close>

subsection \<open>Bits and Hamming weights of bitmasks\<close>

text \<open>
  A bitmask is read bit by bit, least significant bit of the first byte first, as the
  backend reads a byte array into a boolean share.
\<close>

definition byte_bits :: "byte \<Rightarrow> bool list" where
  "byte_bits b = map (bit b) [0..<8]"

definition bm_bits :: "bitmask \<Rightarrow> bool list" where
  "bm_bits bm = concat (map byte_bits bm)"

text \<open>\<open>__builtin_popcount\<close> of one byte.\<close>

definition popcount :: "byte \<Rightarrow> nat" where
  "popcount b = length (filter (bit b) [0..<8])"

text \<open>
  \<open>CircUnit hw(const Bitmask& bm)\<close>: the sum of the byte popcounts, accumulated in a
  \<open>CircUnit\<close>; and its vector version, a \<open>transform\<close> over the vector.
\<close>

definition hw :: "bitmask \<Rightarrow> circ_unit" where
  "hw bm = foldl (\<lambda>n b. n + of_nat (popcount b)) 0 bm"

definition hw_vec :: "bitmask list \<Rightarrow> circ_unit list" where
  "hw_vec v_bm = map hw v_bm"

subsection \<open>Logarithms and bit sizes\<close>

text \<open>The smallest \<open>k\<close> with \<open>n \<le> 2 ^ k\<close>.\<close>

function ceil_log2 :: "nat \<Rightarrow> nat" where
  "ceil_log2 n = (if n \<le> 1 then 0 else Suc (ceil_log2 ((n + 1) div 2)))"
  by pat_completeness auto
termination
  by (relation "measure id") auto

declare ceil_log2.simps [simp del]

definition ceil_log2_min1 :: "nat \<Rightarrow> nat" where
  "ceil_log2_min1 n = (if n \<le> 1 then 1 else ceil_log2 n)"

text \<open>\<open>size_t hw_size(size_t size)\<close>: bits needed for a popcount of \<open>size\<close> bits (\<open>sz\<close>).\<close>

definition hw_size :: "nat \<Rightarrow> nat" where
  "hw_size sz = ceil_log2_min1 (sz + 1)"

text \<open>\<open>bitbytes\<close>: bytes needed for a payload of \<open>b\<close> bits.\<close>

definition bitbytes :: "nat \<Rightarrow> nat" where
  "bitbytes b = (b + 7) div 8"

subsection \<open>Rounding and weight rescaling\<close>

text \<open>\<open>llround\<close>: round to nearest, halves away from zero.\<close>

definition llround :: "rat \<Rightarrow> int" where
  "llround x = (if 0 \<le> x then \<lfloor>x + 1/2\<rfloor> else - \<lfloor>- x + 1/2\<rfloor>)"

text \<open>
  \<open>rescale_weight(weight, prec, max_weight)\<close>: \<open>max_el = (1ULL << prec) - 1ULL\<close>
  and \<open>llround((weight/max_weight) * max_el)\<close>, returned as \<open>unsigned long long\<close>
  (a negative result wraps modulo \<open>2^64\<close>).
\<close>

definition rescale_weight :: "rat \<Rightarrow> nat \<Rightarrow> rat \<Rightarrow> size_t" where
  "rescale_weight weight prec max_weight =
     (let max_el = (2 :: size_t) ^ prec - 1
      in word_of_int (llround ((weight / max_weight) * of_nat (unat max_el))))"

text \<open>
  \<open>rescale_weights\<close>: a zero \<open>max_weight\<close> is replaced by the largest weight, then
  every weight is rescaled.
\<close>

definition rescale_weights :: "rat list \<Rightarrow> nat \<Rightarrow> rat \<Rightarrow> size_t list" where
  "rescale_weights weights prec max_weight =
     (let mw = (if max_weight = 0 then fold max (tl weights) (hd weights) else max_weight)
      in map (\<lambda>w. rescale_weight w prec mw) weights)"

subsection \<open>Hamming weights\<close>

lemma length_byte_bits [simp]: "length (byte_bits b) = 8"
  by (simp add: byte_bits_def)

lemma length_bm_bits [simp]: "length (bm_bits bm) = 8 * length bm"
  by (induction bm) (simp_all add: bm_bits_def)

lemma bm_bits_Cons: "bm_bits (b # bm) = byte_bits b @ bm_bits bm"
  by (simp add: bm_bits_def)

lemma popcount_byte_bits: "popcount b = count_list (byte_bits b) True"
proof -
  have "\<And>ns. length (filter (bit b) ns) = count_list (map (bit b) ns) True"
    by (induct_tac ns) simp_all
  then show ?thesis by (simp add: popcount_def byte_bits_def)
qed

lemma popcount_le: "popcount b \<le> 8"
  using count_list_le_length [of "byte_bits b" True] by (simp add: popcount_byte_bits)

text \<open>The accumulated \<open>CircUnit\<close> is the word of the exact bit count.\<close>

lemma hw_foldl: "foldl (\<lambda>n b. n + of_nat (popcount b)) acc bm =
    acc + of_nat (count_list (bm_bits bm) True)"
  by (induction bm arbitrary: acc) (simp_all add: bm_bits_def popcount_byte_bits add.assoc)

lemma hw_eq: "hw bm = of_nat (count_list (bm_bits bm) True)"
  by (simp add: hw_def hw_foldl)

lemma unat_hw:
  assumes "8 * length bm < 2 ^ 32"
  shows "unat (hw bm) = count_list (bm_bits bm) True"
proof -
  have "count_list (bm_bits bm) True \<le> 8 * length bm"
    using count_list_le_length [of "bm_bits bm" True] by simp
  with assms show ?thesis by (simp add: hw_eq unat_of_nat_small)
qed

subsection \<open>Logarithms\<close>

lemma ceil_log2_le: "n \<le> 2 ^ ceil_log2 n"
proof (induction n rule: ceil_log2.induct)
  case (1 n)
  show ?case
  proof (cases "n \<le> 1")
    case True
    then show ?thesis by (simp add: ceil_log2.simps [of n])
  next
    case False
    with "1.IH" have "(n + 1) div 2 \<le> 2 ^ ceil_log2 ((n + 1) div 2)" by simp
    then have "n \<le> 2 * 2 ^ ceil_log2 ((n + 1) div 2)" by linarith
    with False show ?thesis by (simp add: ceil_log2.simps [of n])
  qed
qed

lemma ceil_log2_least: "n \<le> 2 ^ k \<Longrightarrow> ceil_log2 n \<le> k"
proof (induction n arbitrary: k rule: ceil_log2.induct)
  case (1 n)
  show ?case
  proof (cases "n \<le> 1")
    case True
    then show ?thesis by (simp add: ceil_log2.simps [of n])
  next
    case False
    with "1.prems" obtain k' where k: "k = Suc k'"
      by (cases k) auto
    with "1.prems" have "(n + 1) div 2 \<le> 2 ^ k'" by simp
    with False "1.IH" have "ceil_log2 ((n + 1) div 2) \<le> k'" by simp
    with False k show ?thesis by (simp add: ceil_log2.simps [of n])
  qed
qed

lemma ceil_log2_min1_le: "n \<le> 2 ^ ceil_log2_min1 n"
  using ceil_log2_le [of n] by (simp add: ceil_log2_min1_def)

text \<open>Every popcount of a payload of at most \<open>sz\<close> bits fits into \<open>hw_size sz\<close> bits.\<close>

lemma hw_size_fits: "x \<le> sz \<Longrightarrow> x < 2 ^ hw_size sz"
  using ceil_log2_min1_le [of "sz + 1"] by (simp add: hw_size_def)

lemma hw_size_least: "sz < 2 ^ k \<Longrightarrow> 0 < k \<Longrightarrow> hw_size sz \<le> k"
  using ceil_log2_least [of "sz + 1" k] by (simp add: hw_size_def ceil_log2_min1_def)

subsection \<open>Rounding\<close>

lemma llround_nonneg: "0 \<le> x \<Longrightarrow> llround x = \<lfloor>x + 1/2\<rfloor>"
  by (simp add: llround_def)

lemma llround_bounds:
  assumes "0 \<le> x" and "x \<le> of_nat m"
  shows "0 \<le> llround x \<and> llround x \<le> int m"
proof -
  have "x + 1/2 < of_int (int m) + 1" using assms(2) by simp
  then have "\<lfloor>x + 1/2\<rfloor> \<le> int m" by (simp only: floor_le_iff)
  with assms(1) show ?thesis by (simp add: llround_nonneg)
qed

lemma llround_mono: "0 \<le> x \<Longrightarrow> x \<le> y \<Longrightarrow> llround x \<le> llround y"
  by (simp add: llround_nonneg floor_mono)

lemma llround_of_nat [simp]: "llround (of_nat m) = int m"
proof -
  have "\<lfloor>(of_nat m :: rat) + 1/2\<rfloor> = int m" by (simp add: floor_eq_iff)
  then show ?thesis by (simp add: llround_nonneg)
qed

lemma unat_max_el:
  "prec < 64 \<Longrightarrow> unat ((2 :: size_t) ^ prec - 1) = 2 ^ prec - 1"
proof -
  assume "prec < 64"
  then have lt: "(2::nat) ^ prec - 1 < 2 ^ LENGTH(64)"
    using power_strict_increasing [of prec 64 "2::nat"] by simp
  have "(2 :: size_t) ^ prec - 1 = of_nat (2 ^ prec - 1)"
    by (simp add: of_nat_diff)
  then show ?thesis
    using unat_of_nat_small [where 'a = 64, OF lt] by simp
qed

end
