(* ===== verification/Config.thy ===== *)
theory Config
  imports Numeric
begin

text \<open>
  Field and link configuration (component C2; the member \<open>fields\<close> is \<open>cfg_fields\<close>, as the record package reserves \<open>fields\<close>): \<open>ML_Field\<close>, \<open>EpilinkConfig\<close>
  and its constructor with the precision planner and the exchange-group checks,
  \<open>set_precisions\<close> and \<open>set_ideal_precision\<close> (\<open>epilink_input.cpp\<close>).
  The \<open>size_t\<close> arithmetic of the planner is kept at its width (\<open>64 word\<close>), because
  it wraps around on large bitmasks and the \<open>assert\<close> that should catch it is
  evaluated in the same wrapped arithmetic.  \<open>std::map<FieldName, ML_Field>\<close> is an
  association list ordered by key; \<open>IndexSet\<close> (a \<open>std::set\<close>) a sorted list.
\<close>

datatype field_comparator = DICE | BINARY
datatype field_type = INTEGER | NUMBER | STRING | BITMASK

record ml_field =
  fname :: field_name
  weight :: rat
  comparator :: field_comparator
  ftype :: field_type
  bitsize :: nat

type_synonym field_map = "(field_name \<times> ml_field) list"
type_synonym index_set = "field_name list"

record epilink_config =
  cfg_fields :: field_map
  exchange_groups :: "index_set list"
  threshold :: rat
  tthreshold :: rat
  matching_mode :: bool
  bitlen :: nat
  nfields :: nat
  max_weight :: rat
  dice_prec :: size_t
  weight_prec :: size_t
  size_hw :: nat

subsection \<open>The constructor\<close>

text \<open>\<open>sel::max_element(fields, weight)\<close>: the largest weight (the empty map has none).\<close>

fun list_max :: "rat list \<Rightarrow> rat" where
  "list_max [] = 0"
| "list_max [x] = x"
| "list_max (x # xs) = max x (list_max xs)"

text \<open>The longest bitmask among the \<open>DICE\<close> fields (the loop before the planner).\<close>

definition max_bm_size :: "field_map \<Rightarrow> nat" where
  "max_bm_size fs =
     foldl (\<lambda>m f. if comparator (snd f) = DICE then max m (bitsize (snd f)) else m) 0 fs"

text \<open>\<open>ceil_log2(nfields*nfields)\<close>, the product taken in \<open>size_t\<close>.\<close>

definition cl_n2 :: "nat \<Rightarrow> nat" where
  "cl_n2 n = ceil_log2 (unat (of_nat (n * n) :: size_t))"

text \<open>
  The sanity checks of the exchange groups.  For one group: every field name is
  inserted into the union \<open>xgunion\<close> of the names seen so far (a repeated name
  throws), then looked up (\<open>fields.at\<close>) and compared with the group's first field.
\<close>

fun check_group_fields ::
  "field_map \<Rightarrow> ml_field \<Rightarrow> index_set \<Rightarrow> field_name list \<Rightarrow> sel_error + field_name list" where
  "check_group_fields fs f0 [] xgunion = Inr xgunion"
| "check_group_fields fs f0 (fn # rest) xgunion =
     (if fn \<in> set xgunion then Inl ExchangeGroupsNotDistinct
      else (case map_at fs fn of
              Inl e \<Rightarrow> Inl e
            | Inr f \<Rightarrow>
                if comparator f \<noteq> comparator f0 then Inl ComparatorMismatch
                else if bitsize f \<noteq> bitsize f0 then Inl BitsizeMismatch
                else check_group_fields fs f0 rest (fn # xgunion)))"

text \<open>\<open>fields.at(*group.cbegin())\<close> dereferences \<open>begin()\<close> of an empty group.\<close>

fun check_exchange_groups ::
  "field_map \<Rightarrow> index_set list \<Rightarrow> field_name list \<Rightarrow> sel_error + unit" where
  "check_exchange_groups fs [] xgunion = Inr ()"
| "check_exchange_groups fs (grp # gs) xgunion =
     (case grp of
        [] \<Rightarrow> Inl Undefined
      | g0 # _ \<Rightarrow>
          (case map_at fs g0 of
             Inl e \<Rightarrow> Inl e
           | Inr f0 \<Rightarrow>
               (case check_group_fields fs f0 grp xgunion of
                  Inl e \<Rightarrow> Inl e
                | Inr xg \<Rightarrow> check_exchange_groups fs gs xg)))"

text \<open>
  \<open>EpilinkConfig::EpilinkConfig(fields, exchange_groups, threshold, tthreshold,
  matching_mode, bitlen)\<close>.  The safe-mode planner: \<open>dice_prec = 16 - 1 -
  hw_size(max_bm_size)\<close> and \<open>weight_prec = (bitlen - ceil_log2(n*n) - dice_prec)/2\<close>
  in \<open>size_t\<close>, then the \<open>assert\<close> of the bit budget, then the group checks.
  \<open>size_hw\<close>, the width of the Hamming-weight shares, is \<open>hw_size(max_bm_size)\<close>.
\<close>

definition make_epilink_config ::
  "field_map \<Rightarrow> index_set list \<Rightarrow> rat \<Rightarrow> rat \<Rightarrow> bool \<Rightarrow> nat \<Rightarrow> sel_error + epilink_config" where
  "make_epilink_config fs groups t tt mm bl =
     (let n = length fs;
          mbs = max_bm_size fs;
          dp = (16 - 1 - of_nat (hw_size mbs)) :: size_t;
          cl = (of_nat (cl_n2 n)) :: size_t;
          wp = (of_nat bl - cl - dp) div 2;
          cfg = \<lparr>cfg_fields = fs, exchange_groups = groups, threshold = t, tthreshold = tt,
                 matching_mode = mm, bitlen = bl, nfields = n,
                 max_weight = list_max (map (weight \<circ> snd) fs),
                 dice_prec = dp, weight_prec = wp, size_hw = hw_size mbs\<rparr>
      in if \<not> (dp + 2 * wp + cl \<le> of_nat bl) then Inl AssertFailed
         else (case check_exchange_groups fs groups [] of
                 Inl e \<Rightarrow> Inl e
               | Inr _ \<Rightarrow> Inr cfg))"

subsection \<open>Explicit precisions\<close>

text \<open>\<open>set_precisions(dice_prec_, weight_prec_)\<close>: the budget check in \<open>size_t\<close>.\<close>

definition set_precisions :: "epilink_config \<Rightarrow> size_t \<Rightarrow> size_t \<Rightarrow> sel_error + epilink_config" where
  "set_precisions cfg dp wp =
     (if dp + 2 * wp + of_nat (cl_n2 (nfields cfg)) > of_nat (bitlen cfg) then Inl PrecisionOverflow
      else Inr (cfg\<lparr>dice_prec := dp, weight_prec := wp\<rparr>))"

text \<open>
  \<open>set_ideal_precision()\<close>: a third of the available bits each, one leftover bit to
  the dice precision, two leftover bits as one more bit of weight precision.
\<close>

definition set_ideal_precision :: "epilink_config \<Rightarrow> sel_error + epilink_config" where
  "set_ideal_precision cfg =
     (let bits_av = (of_nat (bitlen cfg) - of_nat (cl_n2 (nfields cfg))) :: size_t;
          dp = bits_av div 3;
          wp = dp
      in if bits_av mod 3 = 1 then set_precisions cfg (dp + 1) wp
         else if bits_av mod 3 = 2 then set_precisions cfg dp (wp + 1)
         else set_precisions cfg dp wp)"

subsection \<open>What the checks accept\<close>

text \<open>Every field of a group is known and agrees with \<open>f0\<close> in comparator and bitsize.\<close>

definition group_fields_ok :: "field_map \<Rightarrow> ml_field \<Rightarrow> index_set \<Rightarrow> bool" where
  "group_fields_ok fs f0 g \<longleftrightarrow>
     (\<forall>x\<in>set g. case map_of fs x of
        None \<Rightarrow> False
      | Some f \<Rightarrow> comparator f = comparator f0 \<and> bitsize f = bitsize f0)"

text \<open>
  Well-formed exchange groups (the spec's invariants 1 and 2): non-empty, pairwise
  disjoint, made of known fields that share comparator and bitsize.
\<close>

definition groups_ok :: "field_map \<Rightarrow> index_set list \<Rightarrow> bool" where
  "groups_ok fs gs \<longleftrightarrow> distinct (concat gs) \<and>
     (\<forall>g\<in>set gs. g \<noteq> [] \<and>
        (case map_of fs (hd g) of None \<Rightarrow> False | Some f0 \<Rightarrow> group_fields_ok fs f0 g))"

text \<open>The overflow budget of the spec's invariant 3, read in \<open>nat\<close>.\<close>

definition prec_budget :: "epilink_config \<Rightarrow> bool" where
  "prec_budget cfg \<longleftrightarrow>
     unat (dice_prec cfg) + 2 * unat (weight_prec cfg) + cl_n2 (nfields cfg) \<le> bitlen cfg"

lemma group_fields_ok_Cons [simp]:
  "group_fields_ok fs f0 (x # g) \<longleftrightarrow>
     (case map_of fs x of None \<Rightarrow> False
      | Some f \<Rightarrow> comparator f = comparator f0 \<and> bitsize f = bitsize f0) \<and>
     group_fields_ok fs f0 g"
  by (simp add: group_fields_ok_def)

lemma check_group_fields_Inr:
  "check_group_fields fs f0 g xg = Inr xg' \<longleftrightarrow>
     distinct g \<and> set g \<inter> set xg = {} \<and> group_fields_ok fs f0 g \<and> xg' = rev g @ xg"
proof (induction g arbitrary: xg)
  case Nil
  then show ?case by (auto simp: group_fields_ok_def)
next
  case (Cons x g)
  show ?case
    using Cons.IH [of "x # xg"]
    by (auto simp: map_at_def split: option.splits)
qed

lemma check_group_fields_Inl:
  "check_group_fields fs f0 g xg = Inl e \<Longrightarrow>
     \<not> (distinct g \<and> set g \<inter> set xg = {} \<and> group_fields_ok fs f0 g)"
  using check_group_fields_Inr [of fs f0 g xg "rev g @ xg"] by auto

lemma check_exchange_groups_Inr:
  "check_exchange_groups fs gs xg = Inr () \<longleftrightarrow>
     distinct (concat gs) \<and> set (concat gs) \<inter> set xg = {} \<and>
     (\<forall>g\<in>set gs. g \<noteq> [] \<and>
        (case map_of fs (hd g) of None \<Rightarrow> False | Some f0 \<Rightarrow> group_fields_ok fs f0 g))"
proof (induction gs arbitrary: xg)
  case Nil
  then show ?case by simp
next
  case (Cons grp gs)
  show ?case
  proof (cases grp)
    case Nil
    then show ?thesis by simp
  next
    case (Cons g0 rest)
    show ?thesis
    proof (cases "map_of fs g0")
      case None
      with Cons show ?thesis by (simp add: map_at_def)
    next
      case (Some f0)
      then show ?thesis
        using Cons Cons.IH [of "rev grp @ xg"]
        by (auto simp: map_at_def check_group_fields_Inr dest!: check_group_fields_Inl
            split: sum.splits)
    qed
  qed
qed

lemma check_exchange_groups_ok:
  "check_exchange_groups fs gs [] = Inr () \<longleftrightarrow> groups_ok fs gs"
  by (simp add: check_exchange_groups_Inr groups_ok_def)

lemma check_exchange_groups_unit:
  "(check_exchange_groups fs gs xg = Inr u) = (check_exchange_groups fs gs xg = Inr ())"
  by simp

subsection \<open>The planner's \<open>size_t\<close> arithmetic\<close>

lemma unat_size_t: "n < 2 ^ 64 \<Longrightarrow> unat (of_nat n :: size_t) = n"
  by (simp add: unat_of_nat_small)

lemma cl_n2_le: "cl_n2 n \<le> 64"
proof -
  have "unat (of_nat (n * n) :: size_t) < 2 ^ LENGTH(64)"
    by (rule unsigned_less)
  then have "unat (of_nat (n * n) :: size_t) \<le> 2 ^ 64" by simp
  then show ?thesis unfolding cl_n2_def by (rule ceil_log2_least)
qed

lemma of_nat_div2_size_t:
  "m < 2 ^ 64 \<Longrightarrow> (of_nat m :: size_t) div 2 = of_nat (m div 2)"
proof -
  assume m: "m < 2 ^ 64"
  then have "unat ((of_nat m :: size_t) div 2) = m div 2"
    by (simp add: unat_div unat_size_t)
  moreover from m have "unat (of_nat (m div 2) :: size_t) = m div 2"
    by (simp add: unat_size_t)
  ultimately show ?thesis by (simp add: word_unat_eq_iff)
qed

lemma planner_words:
  fixes h c bl :: nat
  assumes h: "h \<le> 15" and room: "c + (15 - h) \<le> bl" and bl: "bl < 2 ^ 64"
  shows "unat ((16 - 1 - of_nat h) :: size_t) = 15 - h"
    and "unat ((of_nat bl - of_nat c - (16 - 1 - of_nat h)) div 2 :: size_t) = (bl - c - (15 - h)) div 2"
    and "(16 - 1 - of_nat h) + 2 * ((of_nat bl - of_nat c - (16 - 1 - of_nat h)) div 2) + of_nat c
           \<le> (of_nat bl :: size_t)"
proof -
  have dp: "(16 - 1 - of_nat h :: size_t) = of_nat (15 - h)"
    using h by (simp add: of_nat_diff)
  let ?m = "bl - c - (15 - h)"
  have m: "?m < 2 ^ 64" using bl by linarith
  have diff: "(of_nat bl - of_nat c - of_nat (15 - h) :: size_t) = of_nat ?m"
    using room by (simp add: of_nat_diff)
  have wp: "(of_nat bl - of_nat c - (16 - 1 - of_nat h)) div 2 = (of_nat (?m div 2) :: size_t)"
    using dp diff of_nat_div2_size_t [OF m] by simp
  show "unat ((16 - 1 - of_nat h) :: size_t) = 15 - h"
    unfolding dp by (rule unat_size_t) (use h in simp)
  show "unat ((of_nat bl - of_nat c - (16 - 1 - of_nat h)) div 2 :: size_t) = ?m div 2"
    using wp m by (simp add: unat_size_t)
  have sum: "(16 - 1 - of_nat h) + 2 * ((of_nat bl - of_nat c - (16 - 1 - of_nat h)) div 2) + of_nat c
      = (of_nat ((15 - h) + 2 * (?m div 2) + c) :: size_t)"
    using dp wp by simp
  have le: "(15 - h) + 2 * (?m div 2) + c \<le> bl" using room by linarith
  let ?x = "(15 - h) + 2 * (?m div 2) + c"
  have ux: "unat (of_nat ?x :: size_t) = ?x"
    by (rule unat_size_t) (use le bl in linarith)
  have ub: "unat (of_nat bl :: size_t) = bl"
    by (rule unat_size_t) (fact bl)
  have "(of_nat ?x :: size_t) \<le> of_nat bl"
    unfolding word_le_nat_alt ux ub by (fact le)
  then show "(16 - 1 - of_nat h) + 2 * ((of_nat bl - of_nat c - (16 - 1 - of_nat h)) div 2) + of_nat c
           \<le> (of_nat bl :: size_t)"
    by (simp only: sum)
qed

lemma make_epilink_config_Inr:
  "make_epilink_config fs gs t tt mm bl = Inr cfg \<longleftrightarrow>
     (let n = length fs; h = hw_size (max_bm_size fs);
          dp = (16 - 1 - of_nat h) :: size_t; cl = (of_nat (cl_n2 n)) :: size_t;
          wp = (of_nat bl - cl - dp) div 2
      in dp + 2 * wp + cl \<le> of_nat bl \<and> groups_ok fs gs \<and>
         cfg = \<lparr>cfg_fields = fs, exchange_groups = gs, threshold = t, tthreshold = tt,
                matching_mode = mm, bitlen = bl, nfields = n,
                max_weight = list_max (map (weight \<circ> snd) fs),
                dice_prec = dp, weight_prec = wp, size_hw = h\<rparr>)"
  by (auto simp: make_epilink_config_def Let_def check_exchange_groups_ok [symmetric]
      split: sum.splits)

subsection \<open>Properties of the constructor and of the precision setters\<close>

text \<open>
  Claim C8: when the planner's \<open>size_t\<close> arithmetic does not wrap (the longest
  bitmask needs at most 15 bits of popcount and the budget leaves room for the dice
  precision), the constructor accepts the configuration exactly when its exchange
  groups are well formed; otherwise it throws.
\<close>

theorem make_epilink_config_accepts:
  assumes "hw_size (max_bm_size fs) \<le> 15"
    and "cl_n2 (length fs) + (15 - hw_size (max_bm_size fs)) \<le> bl" and "bl < 2 ^ 64"
  shows "(\<exists>cfg. make_epilink_config fs gs t tt mm bl = Inr cfg) \<longleftrightarrow> groups_ok fs gs"
proof -
  have "cl_n2 (length fs) < 2 ^ 64" using assms(2,3) by linarith
  then have "unat (of_nat (cl_n2 (length fs)) :: size_t) = cl_n2 (length fs)"
    by (rule unat_size_t)
  then have assert: "(16 - 1 - of_nat (hw_size (max_bm_size fs))) +
      2 * ((of_nat bl - of_nat (cl_n2 (length fs)) - (16 - 1 - of_nat (hw_size (max_bm_size fs)))) div 2) +
      of_nat (cl_n2 (length fs)) \<le> (of_nat bl :: size_t)"
    using planner_words(3) [OF assms] by simp
  show ?thesis
    using assert by (simp add: make_epilink_config_Inr Let_def)
qed

text \<open>
  Claim C7: every configuration the constructor returns, when its arithmetic does not
  wrap, has well-formed exchange groups, the safe-mode precisions
  \<open>dice_prec = 15 - hw_size(max_bm_size)\<close> and
  \<open>weight_prec = (bitlen - ceil_log2(n*n) - dice_prec) div 2\<close>, and satisfies the
  overflow budget \<open>dice_prec + 2 * weight_prec + ceil_log2(n*n) \<le> bitlen\<close>.
\<close>

theorem make_epilink_config_budget:
  assumes ok: "make_epilink_config fs gs t tt mm bl = Inr cfg"
    and h: "hw_size (max_bm_size fs) \<le> 15"
    and room: "cl_n2 (length fs) + (15 - hw_size (max_bm_size fs)) \<le> bl" and bl: "bl < 2 ^ 64"
  shows "groups_ok fs gs \<and> prec_budget cfg \<and>
         unat (dice_prec cfg) = 15 - hw_size (max_bm_size fs) \<and>
         unat (weight_prec cfg) = (bl - cl_n2 (length fs) - (15 - hw_size (max_bm_size fs))) div 2"
proof -
  from ok have g: "groups_ok fs gs"
    and c: "cfg = \<lparr>cfg_fields = fs, exchange_groups = gs, threshold = t, tthreshold = tt,
                matching_mode = mm, bitlen = bl, nfields = length fs,
                max_weight = list_max (map (weight \<circ> snd) fs),
                dice_prec = 16 - 1 - of_nat (hw_size (max_bm_size fs)),
                weight_prec = (of_nat bl - of_nat (cl_n2 (length fs)) -
                               (16 - 1 - of_nat (hw_size (max_bm_size fs)))) div 2,
                size_hw = hw_size (max_bm_size fs)\<rparr>"
    by (simp_all add: make_epilink_config_Inr Let_def)
  note w = planner_words [OF h room bl]
  have "(15 - hw_size (max_bm_size fs)) +
      2 * ((bl - cl_n2 (length fs) - (15 - hw_size (max_bm_size fs))) div 2) +
      cl_n2 (length fs) \<le> bl"
    using room by linarith
  then have "prec_budget cfg"
    unfolding prec_budget_def c epilink_config.select_convs w(1) w(2) by simp
  with g w(1) w(2) show ?thesis by (simp add: c)
qed

text \<open>
  Claim C17: with explicit precisions that are small enough not to wrap,
  \<open>set_precisions\<close> fails with \<open>PrecisionOverflow\<close> exactly when the bit budget is
  exceeded, and otherwise changes the two precisions and nothing else.
\<close>

theorem set_precisions_spec:
  assumes "unat dp < 2 ^ 62" and "unat wp < 2 ^ 62" and "bitlen cfg < 2 ^ 62"
  shows "set_precisions cfg dp wp =
           (if unat dp + 2 * unat wp + cl_n2 (nfields cfg) \<le> bitlen cfg
            then Inr (cfg\<lparr>dice_prec := dp, weight_prec := wp\<rparr>) else Inl PrecisionOverflow)"
proof -
  let ?c = "cl_n2 (nfields cfg)"
  have c: "?c \<le> 64" by (rule cl_n2_le)
  have uc: "unat (of_nat ?c :: size_t) = ?c"
    using c by (simp add: unat_size_t)
  have ub: "unat (of_nat (bitlen cfg) :: size_t) = bitlen cfg"
    using assms(3) by (simp add: unat_size_t)
  have "unat (2 :: size_t) * unat wp < 2 ^ 64" using assms(2) by simp
  then have u2: "unat (2 * wp) = 2 * unat wp" by (simp add: unat_mult_small)
  have "unat dp + unat (2 * wp) < 2 ^ 64" using assms(1,2) u2 by simp
  then have u3: "unat (dp + 2 * wp) = unat dp + 2 * unat wp" using u2 by (simp add: unat_add_small)
  have "unat (dp + 2 * wp) + unat (of_nat ?c :: size_t) < 2 ^ 64" using assms(1,2) u3 uc c by simp
  then have "unat (dp + 2 * wp + of_nat ?c) = unat dp + 2 * unat wp + ?c"
    using u3 uc by (simp add: unat_add_small)
  then have "(dp + 2 * wp + of_nat ?c > (of_nat (bitlen cfg) :: size_t)) =
             (unat dp + 2 * unat wp + ?c > bitlen cfg)"
    using ub by (simp add: word_less_nat_alt)
  then show ?thesis by (auto simp: set_precisions_def)
qed

lemma of_nat_divmod_size_t:
  assumes "a < 2 ^ 64" and "k < 2 ^ 64"
  shows "(of_nat a :: size_t) div of_nat k = of_nat (a div k)"
    and "(of_nat a :: size_t) mod of_nat k = of_nat (a mod k)"
proof -
  have ua: "unat (of_nat a :: size_t) = a" and uk: "unat (of_nat k :: size_t) = k"
    using assms by (simp_all add: unat_size_t)
  have "a div k < 2 ^ 64" "a mod k < 2 ^ 64"
    using assms(1) div_le_dividend [of a k] mod_less_eq_dividend [of a k] by linarith+
  then have "unat (of_nat (a div k) :: size_t) = a div k"
      and "unat (of_nat (a mod k) :: size_t) = a mod k"
    by (simp_all add: unat_size_t)
  with ua uk show "(of_nat a :: size_t) div of_nat k = of_nat (a div k)"
      and "(of_nat a :: size_t) mod of_nat k = of_nat (a mod k)"
    by (simp_all add: word_unat_eq_iff unat_div unat_mod)
qed

lemma set_precisions_nat:
  assumes "x < 2 ^ 62" and "y < 2 ^ 62" and "bitlen cfg < 2 ^ 62"
    and "x + 2 * y + cl_n2 (nfields cfg) = bitlen cfg"
  shows "set_precisions cfg (of_nat x) (of_nat y) =
           Inr (cfg\<lparr>dice_prec := of_nat x, weight_prec := of_nat y\<rparr>)"
proof -
  have "unat (of_nat x :: size_t) = x" "unat (of_nat y :: size_t) = y"
    using assms(1,2) by (simp_all add: unat_size_t)
  with assms show ?thesis by (simp add: set_precisions_spec)
qed

lemma set_ideal_precision_nat:
  assumes "cl_n2 (nfields cfg) \<le> bitlen cfg" and "bitlen cfg < 2 ^ 64"
  defines "a \<equiv> bitlen cfg - cl_n2 (nfields cfg)"
  shows "set_ideal_precision cfg =
           (if a mod 3 = 1 then set_precisions cfg (of_nat (a div 3 + 1)) (of_nat (a div 3))
            else if a mod 3 = 2 then set_precisions cfg (of_nat (a div 3)) (of_nat (a div 3 + 1))
            else set_precisions cfg (of_nat (a div 3)) (of_nat (a div 3)))"
proof -
  have a: "a < 2 ^ 64" using assms(2) by (simp add: a_def)
  have av: "(of_nat (bitlen cfg) - of_nat (cl_n2 (nfields cfg)) :: size_t) = of_nat a"
    using assms(1) by (simp add: a_def of_nat_diff)
  note dm = of_nat_divmod_size_t [OF a, of 3, simplified]
  have r: "a mod 3 < 3" by simp
  have "unat (of_nat (a mod 3) :: size_t) = a mod 3"
    using r by (simp add: unat_size_t)
  then have r1: "((of_nat (a mod 3) :: size_t) = 1) = (a mod 3 = 1)"
    and r2: "((of_nat (a mod 3) :: size_t) = 2) = (a mod 3 = 2)"
    by (auto simp: word_unat_eq_iff)
  show ?thesis
    unfolding set_ideal_precision_def Let_def av dm r1 r2 by (simp add: add.commute)
qed

lemma set_precisions_nat_ok:
  assumes "x < 2 ^ 62" and "y < 2 ^ 62" and "bitlen cfg < 2 ^ 62"
    and "x + 2 * y + cl_n2 (nfields cfg) = bitlen cfg"
  shows "\<exists>cfg'. set_precisions cfg (of_nat x) (of_nat y) = Inr cfg' \<and>
           unat (dice_prec cfg') = x \<and> unat (weight_prec cfg') = y"
  using set_precisions_nat [OF assms] assms(1,2) by (simp add: unat_size_t)

text \<open>
  Claim C18: when \<open>ceil_log2(n*n)\<close> fits into \<open>bitlen\<close>, \<open>set_ideal_precision\<close>
  succeeds, uses the bit budget exactly, and splits it evenly: the two precisions
  differ by at most one bit.
\<close>

theorem set_ideal_precision_tight:
  assumes "cl_n2 (nfields cfg) \<le> bitlen cfg" and "bitlen cfg < 2 ^ 62"
  shows "\<exists>cfg'. set_ideal_precision cfg = Inr cfg' \<and>
           unat (dice_prec cfg') + 2 * unat (weight_prec cfg') + cl_n2 (nfields cfg) = bitlen cfg \<and>
           unat (weight_prec cfg') \<le> unat (dice_prec cfg') + 1 \<and>
           unat (dice_prec cfg') \<le> unat (weight_prec cfg') + 1"
proof -
  let ?c = "cl_n2 (nfields cfg)"
  let ?a = "bitlen cfg - ?c"
  let ?d = "?a div 3"
  have p62: "(2::nat) ^ 62 = 4611686018427387904" by simp
  have dm: "?d * 3 + ?a mod 3 = ?a" by (rule div_mult_mod_eq)
  have d: "?d < 2 ^ 62" and d1: "?d + 1 < 2 ^ 62"
    using assms(2) dm p62 by linarith+
  have eq: "set_ideal_precision cfg =
           (if ?a mod 3 = 1 then set_precisions cfg (of_nat (?d + 1)) (of_nat ?d)
            else if ?a mod 3 = 2 then set_precisions cfg (of_nat ?d) (of_nat (?d + 1))
            else set_precisions cfg (of_nat ?d) (of_nat ?d))"
    using assms by (intro set_ideal_precision_nat) simp_all
  consider "?a mod 3 = 0" | "?a mod 3 = 1" | "?a mod 3 = 2" by linarith
  then show ?thesis
  proof cases
    case 1
    then obtain cfg' where "set_precisions cfg (of_nat ?d) (of_nat ?d) = Inr cfg'"
        and "unat (dice_prec cfg') = ?d" and "unat (weight_prec cfg') = ?d"
      using set_precisions_nat_ok [OF d d assms(2)] assms(1) dm by fastforce
    with 1 eq assms(1) dm show ?thesis by (auto simp: mult.commute)
  next
    case 2
    then obtain cfg' where "set_precisions cfg (of_nat (?d + 1)) (of_nat ?d) = Inr cfg'"
        and "unat (dice_prec cfg') = ?d + 1" and "unat (weight_prec cfg') = ?d"
      using set_precisions_nat_ok [OF d1 d assms(2)] assms(1) dm by fastforce
    with 2 eq assms(1) dm show ?thesis by (auto simp: mult.commute)
  next
    case 3
    then obtain cfg' where "set_precisions cfg (of_nat ?d) (of_nat (?d + 1)) = Inr cfg'"
        and "unat (dice_prec cfg') = ?d" and "unat (weight_prec cfg') = ?d + 1"
      using set_precisions_nat_ok [OF d d1 assms(2)] assms(1) dm by fastforce
    with 3 eq assms(1) dm show ?thesis by (auto simp: mult.commute)
  qed
qed

end
