(* ===== verification/Input.thy ===== *)
theory Input
  imports Config
begin

text \<open>
  Input model (component C3): \<open>EpilinkClientInput\<close> (one query record and the
  database size \<open>nvals\<close> the client was told) and \<open>EpilinkServerInput\<close> (one column
  of optional bitmasks per field) with its constructor from \<open>epilink_input.cpp\<close>.
  A field entry is a \<open>std::optional<Bitmask>\<close>: \<open>None\<close> is the empty field.
\<close>

type_synonym field_entry = "bitmask option"
type_synonym vfield_entry = "bitmask option list"

record epilink_client_input =
  client_record :: "(field_name \<times> field_entry) list"
  client_nvals :: nat

record epilink_server_input =
  database :: "(field_name \<times> vfield_entry) list"
  server_nvals :: nat

text \<open>
  \<open>EpilinkServerInput(database)\<close>: \<open>nvals\<close> is the length of the first column
  (\<open>database.cbegin()\<close>, undefined on an empty map), and \<open>check_vector_size\<close> throws
  unless every column has that length.
\<close>

definition make_server_input :: "(field_name \<times> vfield_entry) list \<Rightarrow> sel_error + epilink_server_input" where
  "make_server_input db =
     (case db of
        [] \<Rightarrow> Inl Undefined
      | (_, col) # _ \<Rightarrow>
          (let n = length col
           in if list_all (\<lambda>row. length (snd row) = n) db
              then Inr \<lparr>database = db, server_nvals = n\<rparr>
              else Inl SizeMismatch))"

text \<open>Shape of a server input: every column has \<open>nvals\<close> rows.\<close>

definition server_input_wf :: "epilink_server_input \<Rightarrow> bool" where
  "server_input_wf si \<longleftrightarrow> list_all (\<lambda>row. length (snd row) = server_nvals si) (database si)"

lemma make_server_input_Inr:
  "make_server_input db = Inr si \<longleftrightarrow>
     db \<noteq> [] \<and> si = \<lparr>database = db, server_nvals = length (snd (hd db))\<rparr> \<and>
     list_all (\<lambda>row. length (snd row) = length (snd (hd db))) db"
  by (auto simp: make_server_input_def Let_def split: list.splits prod.splits)

end
