(* ===== verification/Gadgets.thy ===== *)
theory Gadgets
  imports Prelude
begin

text \<open>
  Circuit gadgets (components C5 and C6), read lane by lane.  A SIMD share holds one
  value per lane (per database row); every gate below acts on each lane alone, so it
  is modelled on one lane's values: a boolean share of width \<open>k\<close> is a \<open>bool list\<close>
  of length \<open>k\<close> (least significant bit first) or, after arithmetic, a \<open>nat\<close>; an
  arithmetic share is a \<open>CircUnit\<close> (\<open>circ_unit\<close>, arithmetic modulo \<open>2^32\<close>).
  The gadgets that combine lanes or list elements (the maximum over quotients and the
  arg-max over lanes) take the list of values.

  From \<open>secure_epilinker.cpp\<close>: \<open>dice_coefficient\<close>, \<open>equality\<close>, \<open>FieldWeight\<close>
  and \<open>sum\<close>.  From the backend contract of the spec (the ABY gadgets are not among
  the sources): \<open>hammingweight\<close>, the 16-bit integer division circuit
  \<open>int_div_16.aby\<close>, the quotient \<open>ArithQuotient\<close>, the max selector comparing
  \<open>p/q\<close> and \<open>r/s\<close> by \<open>p*s < r*q\<close> with ties kept on the left, and the
  tournament reduction behind \<open>max\<close> and \<open>split_select_quotient_target\<close>.
\<close>

subsection \<open>Boolean gadgets\<close>

definition hammingweight :: "bool list \<Rightarrow> nat" where
  "hammingweight x = count_list x True"

text \<open>
  The integer division sub-circuit reads both inputs as 16-bit unsigned values and
  returns their quotient; division by zero yields \<open>0\<close> (the spec's convention for
  two empty popcounts).
\<close>

definition int_div_16 :: "nat \<Rightarrow> nat \<Rightarrow> nat" where
  "int_div_16 a b = (a mod 2 ^ 16) div (b mod 2 ^ 16)"

text \<open>
  \<open>dice_coefficient(x, y, hw_x, hw_y, prec)\<close>: the popcount of \<open>x & y\<close> shifted left
  by \<open>prec + 1\<close>, divided by \<open>hw_x + hw_y\<close> in the 16-bit division circuit.  The
  boolean shift and addition widen the share, so they are exact.
\<close>

definition dice_coefficient :: "bool list \<Rightarrow> bool list \<Rightarrow> nat \<Rightarrow> nat \<Rightarrow> nat \<Rightarrow> nat" where
  "dice_coefficient x y hw_x hw_y prec =
     (let hw_and = hammingweight (map2 (\<and>) x y);
          hw_and_shifted = hw_and * 2 ^ (prec + 1);
          hw_plus = hw_x + hw_y
      in int_div_16 hw_and_shifted hw_plus)"

text \<open>\<open>equality(x, y)\<close>: the one-bit share \<open>x == y\<close>.\<close>

definition equality :: "bool list \<Rightarrow> bool list \<Rightarrow> bool" where
  "equality x y = (x = y)"

text \<open>\<open>to_arith\<close> of a boolean share of at most 32 bits: its value as \<open>CircUnit\<close>.\<close>

definition to_arith :: "nat \<Rightarrow> circ_unit" where
  "to_arith v = of_nat v"

subsection \<open>Field weights and quotients\<close>

text \<open>\<open>struct FieldWeight { ArithShare fw, w; }\<close> on one lane.\<close>

record field_weight =
  fw :: circ_unit
  w :: circ_unit

text \<open>\<open>struct ArithQuotient { ArithShare num, den; }\<close> on one lane.\<close>

record arith_quotient =
  num :: circ_unit
  den :: circ_unit

text \<open>\<open>sum(fweights)\<close>: the sums of all \<open>fw\<close>'s and all \<open>w\<close>'s, as a quotient.\<close>

definition sum_field_weights :: "field_weight list \<Rightarrow> arith_quotient" where
  "sum_field_weights fweights =
     \<lparr>num = sum_list (map fw fweights), den = sum_list (map w fweights)\<rparr>"

text \<open>
  The max selector: \<open>a\<close> is below \<open>b\<close> when \<open>a.num * b.den < b.num * a.den\<close>, both
  products computed in the arithmetic sharing and compared after conversion to
  booleans (unsigned 32-bit comparison).  The selector keeps the left pair unless the
  right one is strictly larger; a target attached to a pair travels with it.
\<close>

definition quot_less :: "arith_quotient \<Rightarrow> arith_quotient \<Rightarrow> bool" where
  "quot_less a b \<longleftrightarrow> num a * den b < num b * den a"

definition max_select :: "arith_quotient \<times> 'b \<Rightarrow> arith_quotient \<times> 'b \<Rightarrow> arith_quotient \<times> 'b" where
  "max_select a b = (if quot_less (fst a) (fst b) then b else a)"

subsection \<open>Tournament reduction\<close>

text \<open>
  One round of the tournament pairs neighbours left to right; an odd last element
  passes through.  Rounds repeat until one element is left.  An empty list has no
  maximum (the gadgets are only called on non-empty vectors).
\<close>

fun tourn_round :: "('a \<Rightarrow> 'a \<Rightarrow> 'a) \<Rightarrow> 'a list \<Rightarrow> 'a list" where
  "tourn_round f (x # y # zs) = f x y # tourn_round f zs"
| "tourn_round f xs = xs"

lemma length_tourn_round: "length (tourn_round f xs) = (length xs + 1) div 2"
  by (induction f xs rule: tourn_round.induct) simp_all

function tournament :: "('a \<Rightarrow> 'a \<Rightarrow> 'a) \<Rightarrow> 'a list \<Rightarrow> 'a option" where
  "tournament f xs =
     (case xs of
        [] \<Rightarrow> None
      | [x] \<Rightarrow> Some x
      | _ \<Rightarrow> tournament f (tourn_round f xs))"
  by pat_completeness auto
termination
  by (relation "measure (\<lambda>(f, xs). length xs)") (auto simp: length_tourn_round)

declare tournament.simps [simp del]

text \<open>
  The value of a quotient as a rational number (a zero denominator gives \<open>0\<close>): the
  score \<open>N/D\<close> the clear-text evaluator computes.
\<close>

definition qrank :: "arith_quotient \<Rightarrow> rat" where
  "qrank q = of_nat (unat (num q)) / of_nat (unat (den q))"

text \<open>\<open>max(perm_weights)\<close>: the largest of a vector of quotients.\<close>

definition max_quotient :: "arith_quotient list \<Rightarrow> arith_quotient option" where
  "max_quotient qs = map_option fst (tournament max_select (map (\<lambda>q. (q, ())) qs))"

text \<open>
  \<open>split_select_quotient_target(quotient, targets, max_selector)\<close>: the arg-max over
  the lanes of a SIMD quotient, the lane index \<open>const_idx\<close> being the target.
\<close>

definition split_select_target :: "arith_quotient list \<Rightarrow> nat list \<Rightarrow> (arith_quotient \<times> nat) option" where
  "split_select_target qs idx = tournament max_select (zip qs idx)"

subsection \<open>The tournament computes a left fold\<close>

lemma set_tourn_round:
  assumes "\<And>a b. f a b = a \<or> f a b = b"
  shows "set (tourn_round f xs) \<subseteq> set xs"
proof (induction xs rule: induct_list012)
  case (3 x y zs)
  then show ?case using assms [of x y] by auto
qed simp_all

lemma foldl_tourn_round:
  assumes sel: "\<And>a b. f a b = a \<or> f a b = b"
    and assoc: "\<And>a b c. a \<in> S \<Longrightarrow> b \<in> S \<Longrightarrow> c \<in> S \<Longrightarrow> f (f a b) c = f a (f b c)"
  shows "a \<in> S \<Longrightarrow> set xs \<subseteq> S \<Longrightarrow> foldl f a (tourn_round f xs) = foldl f a xs"
proof (induction xs arbitrary: a rule: induct_list012)
  case (3 x y zs)
  have fa: "f a (f x y) \<in> S"
    using "3.prems" sel [of a "f x y"] sel [of x y] by auto
  have "foldl f (f a (f x y)) (tourn_round f zs) = foldl f (f a (f x y)) zs"
    using "3.IH"(1) [OF fa] "3.prems" by simp
  moreover have "f a (f x y) = f (f a x) y"
    using "3.prems" assoc [of a x y] by simp
  ultimately show ?case by simp
qed simp_all

lemma tournament_Nil [simp]: "tournament f [] = None"
  by (simp only: tournament.simps [of f "[]"] list.case)

lemma tournament_single [simp]: "tournament f [x] = Some x"
  by (simp only: tournament.simps [of f "[x]"] list.case)

text \<open>
  The code equation: \<open>if\<close> instead of \<open>case\<close>, so that evaluation by rewriting decides
  the test before it unfolds the recursive call.
\<close>

lemma tournament_code [code]:
  "tournament f xs =
     (if xs = [] then None else if tl xs = [] then Some (hd xs) else tournament f (tourn_round f xs))"
  by (subst tournament.simps) (simp split: list.splits)

lemma tournament_Cons:
  "tournament f (x # y # zs) = tournament f (f x y # tourn_round f zs)"
  by (simp add: tournament.simps [of f "x # y # zs"])


lemma foldl_tourn_round_pair:
  assumes sel: "\<And>a b. f a b = a \<or> f a b = b"
    and assoc: "\<And>a b c. a \<in> S \<Longrightarrow> b \<in> S \<Longrightarrow> c \<in> S \<Longrightarrow> f (f a b) c = f a (f b c)"
    and "set (x # y # zs) \<subseteq> S"
  shows "foldl f (f x y) (tourn_round f zs) = foldl f (f x y) zs"
proof -
  have "f x y \<in> S" using assms(3) sel [of x y] by auto
  moreover have "set zs \<subseteq> S" using assms(3) by simp
  ultimately show ?thesis using foldl_tourn_round [OF sel assoc] by blast
qed

lemma tournament_foldl:
  assumes sel: "\<And>a b. f a b = a \<or> f a b = b"
    and assoc: "\<And>a b c. a \<in> S \<Longrightarrow> b \<in> S \<Longrightarrow> c \<in> S \<Longrightarrow> f (f a b) c = f a (f b c)"
  shows "set xs \<subseteq> S \<Longrightarrow> xs \<noteq> [] \<Longrightarrow> tournament f xs = Some (foldl f (hd xs) (tl xs))"
proof (induction xs rule: length_induct)
  case (1 xs)
  show ?case
  proof (cases xs rule: remdups_adj.cases)
    case 1
    with "1.prems" show ?thesis by simp
  next
    case (2 x)
    then show ?thesis by simp
  next
    case (3 x y zs)
    let ?r = "f x y # tourn_round f zs"
    have sub: "set ?r \<subseteq> S"
      using set_tourn_round [OF sel, of xs] "1.prems" 3 by auto
    have "length ?r < length xs" using 3 by (simp add: length_tourn_round)
    then have "tournament f ?r = Some (foldl f (hd ?r) (tl ?r))"
      using "1.IH" sub by blast
    then have "tournament f xs = Some (foldl f (f x y) (tourn_round f zs))"
      using 3 by (simp only: tournament_Cons list.sel)
    also have "foldl f (f x y) (tourn_round f zs) = foldl f (f x y) zs"
      using foldl_tourn_round_pair [OF sel assoc] "1.prems" 3 by blast
    finally show ?thesis using 3 by simp
  qed
qed

subsection \<open>Selecting by a key: the first maximum\<close>

lemma key_select_assoc:
  "(\<lambda>a b. if k a < k b then b else a) ((\<lambda>a b. if k a < k b then b else a) a b) c =
   (\<lambda>a b. if k a < k b then b else a) a ((\<lambda>a b. if k a < k b then b else a) b c)"
  for k :: "'a \<Rightarrow> 'k::linorder"
  by auto

lemma foldl_key_select_first_max:
  fixes k :: "'a \<Rightarrow> 'k::linorder"
  shows "\<exists>p < length (x # xs). foldl (\<lambda>a b. if k a < k b then b else a) x xs = (x # xs) ! p \<and>
           (\<forall>j < length (x # xs). k ((x # xs) ! j) \<le> k ((x # xs) ! p)) \<and>
           (\<forall>j < p. k ((x # xs) ! j) < k ((x # xs) ! p))"
proof (induction xs rule: rev_induct)
  case Nil
  then show ?case by simp
next
  case (snoc y xs)
  then obtain p where p: "p < length (x # xs)"
    and r: "foldl (\<lambda>a b. if k a < k b then b else a) x xs = (x # xs) ! p"
    and le: "\<forall>j < length (x # xs). k ((x # xs) ! j) \<le> k ((x # xs) ! p)"
    and lt: "\<forall>j < p. k ((x # xs) ! j) < k ((x # xs) ! p)"
    by blast
  have nth_l: "\<And>j. j < length (x # xs) \<Longrightarrow> (x # xs @ [y]) ! j = (x # xs) ! j"
    by (simp add: nth_append nth_Cons split: nat.splits)
  have nth_y: "(x # xs @ [y]) ! length (x # xs) = y"
    by (simp add: nth_append)
  show ?case
  proof (cases "k ((x # xs) ! p) < k y")
    case True
    have "\<forall>j < length (x # xs @ [y]). k ((x # xs @ [y]) ! j) \<le> k y"
    proof (intro allI impI)
      fix j assume "j < length (x # xs @ [y])"
      then consider "j < length (x # xs)" | "j = length (x # xs)" by fastforce
      then show "k ((x # xs @ [y]) ! j) \<le> k y"
        using le True nth_l nth_y by cases fastforce+
    qed
    moreover have "\<forall>j < length (x # xs). k ((x # xs @ [y]) ! j) < k y"
      using le True nth_l by fastforce
    ultimately show ?thesis
      using True r nth_y by (intro exI [of _ "length (x # xs)"]) auto
  next
    case False
    have "\<forall>j < length (x # xs @ [y]). k ((x # xs @ [y]) ! j) \<le> k ((x # xs @ [y]) ! p)"
    proof (intro allI impI)
      fix j assume "j < length (x # xs @ [y])"
      then consider "j < length (x # xs)" | "j = length (x # xs)" by fastforce
      then show "k ((x # xs @ [y]) ! j) \<le> k ((x # xs @ [y]) ! p)"
        using le False nth_l nth_y p by cases fastforce+
    qed
    moreover have rp: "(x # xs @ [y]) ! p = (x # xs) ! p" using nth_l p by blast
    moreover have "\<forall>j < p. k ((x # xs @ [y]) ! j) < k ((x # xs @ [y]) ! p)"
    proof (intro allI impI)
      fix j assume "j < p"
      with p have j: "j < length (x # xs)" by simp
      show "k ((x # xs @ [y]) ! j) < k ((x # xs @ [y]) ! p)"
        by (simp only: nth_l [OF j] rp) (rule lt [rule_format, OF \<open>j < p\<close>])
    qed
    moreover have "foldl (\<lambda>a b. if k a < k b then b else a) x (xs @ [y]) = (x # xs @ [y]) ! p"
      using False r rp by simp
    ultimately show ?thesis using p by (intro exI [of _ p]) simp
  qed
qed

subsection \<open>Comparing quotients by cross-multiplication\<close>

text \<open>
  Without overflow of the two products and with positive denominators, the secure
  predicate decides the order of the rational scores.
\<close>

lemma frac_less_nat:
  fixes na da nb db :: nat
  assumes "0 < da" "0 < db"
  shows "((of_nat na :: rat) / of_nat da < of_nat nb / of_nat db) = (na * db < nb * da)"
proof -
  have "((of_nat na :: rat) / of_nat da < of_nat nb / of_nat db) =
        ((of_nat na :: rat) * of_nat db < of_nat nb * of_nat da)"
    using assms by (simp add: field_simps)
  also have "\<dots> = (na * db < nb * da)"
    by (simp only: of_nat_mult [symmetric] of_nat_less_iff)
  finally show ?thesis .
qed

lemma quot_less_qrank:
  assumes "0 < unat (den a)" and "0 < unat (den b)"
    and "unat (num a) * unat (den b) < 2 ^ 32" and "unat (num b) * unat (den a) < 2 ^ 32"
  shows "quot_less a b \<longleftrightarrow> qrank a < qrank b"
proof -
  have "quot_less a b \<longleftrightarrow> unat (num a) * unat (den b) < unat (num b) * unat (den a)"
    using assms(3,4) by (simp add: quot_less_def word_less_nat_alt unat_mult_small)
  also have "\<dots> \<longleftrightarrow> qrank a < qrank b"
    unfolding qrank_def by (rule frac_less_nat [OF assms(1,2), symmetric])
  finally show ?thesis .
qed

text \<open>The score as one normalised fraction (for evaluation).\<close>

lemma of_nat_unat_rat: "(of_nat (unat (x :: 'a::len word)) :: rat) = of_int (uint x)"
  unfolding unat_eq_nat_uint by (rule of_nat_nat [OF uint_ge_0])

lemma qrank_code [code]: "qrank q = Fract (uint (num q)) (uint (den q))"
  unfolding qrank_def of_nat_unat_rat Fract_of_int_quotient ..

subsection \<open>The arg-max over lanes and the maximum over quotients\<close>

lemma foldl_cong_on:
  assumes "\<And>a b. a \<in> S \<Longrightarrow> b \<in> S \<Longrightarrow> f a b = g a b" and "\<And>a b. g a b = a \<or> g a b = b"
  shows "x \<in> S \<Longrightarrow> set xs \<subseteq> S \<Longrightarrow> foldl f x xs = foldl g x xs"
proof (induction xs arbitrary: x)
  case Nil
  then show ?case by simp
next
  case (Cons y xs)
  have "g x y \<in> S" using Cons.prems assms(2) [of x y] by auto
  then show ?case using Cons assms(1) [of x y] by simp
qed

lemma max_select_key:
  assumes "0 < unat (den (fst a))" and "0 < unat (den (fst b))"
    and "unat (num (fst a)) * unat (den (fst b)) < 2 ^ 32"
    and "unat (num (fst b)) * unat (den (fst a)) < 2 ^ 32"
  shows "max_select a b = (if qrank (fst a) < qrank (fst b) then b else a)"
  using quot_less_qrank [OF assms] by (simp add: max_select_def)

text \<open>
  The tournament of the max selector over pairs whose quotients have positive
  denominators and do not overflow returns the first pair of largest score.
\<close>

lemma tournament_max_select:
  assumes ne: "ps \<noteq> []"
    and den: "\<forall>a\<in>set ps. 0 < unat (den (fst a))"
    and ovf: "\<forall>a\<in>set ps. \<forall>b\<in>set ps. unat (num (fst a)) * unat (den (fst b)) < 2 ^ 32"
  shows "\<exists>p < length ps. tournament max_select ps = Some (ps ! p) \<and>
           (\<forall>j < length ps. qrank (fst (ps ! j)) \<le> qrank (fst (ps ! p))) \<and>
           (\<forall>j < p. qrank (fst (ps ! j)) < qrank (fst (ps ! p)))"
proof -
  let ?S = "set ps"
  let ?g = "\<lambda>a b. if qrank (fst a) < qrank (fst b) then b else a"
  have eq: "\<And>a b. a \<in> ?S \<Longrightarrow> b \<in> ?S \<Longrightarrow> max_select a b = ?g a b"
    using den ovf by (intro max_select_key) auto
  have sel: "\<And>a b. max_select a b = a \<or> max_select a b = b"
    by (simp add: max_select_def)
  have gsel: "\<And>a b. ?g a b = a \<or> ?g a b = b" by simp
  have assoc: "\<And>a b c. a \<in> ?S \<Longrightarrow> b \<in> ?S \<Longrightarrow> c \<in> ?S \<Longrightarrow>
      max_select (max_select a b) c = max_select a (max_select b c)"
  proof -
    fix a b c assume abc: "a \<in> ?S" "b \<in> ?S" "c \<in> ?S"
    have ab: "max_select a b \<in> ?S" and bc: "max_select b c \<in> ?S"
      using abc sel [of a b] sel [of b c] by auto
    have "max_select (max_select a b) c = ?g (?g a b) c"
      using eq [OF ab abc(3)] eq [OF abc(1,2)] by simp
    also have "\<dots> = ?g a (?g b c)"
      by (rule key_select_assoc)
    also have "\<dots> = max_select a (max_select b c)"
      using eq [OF abc(1) bc] eq [OF abc(2,3)] by simp
    finally show "max_select (max_select a b) c = max_select a (max_select b c)" .
  qed
  obtain x xs where ps: "ps = x # xs" using ne by (cases ps) auto
  have "tournament max_select ps = Some (foldl max_select x xs)"
    using tournament_foldl [where f = max_select and S = ?S, OF sel assoc, of ps] ps by simp
  also have "foldl max_select x xs = foldl ?g x xs"
  proof (rule foldl_cong_on [where S = ?S and f = max_select and g = ?g])
    show "\<And>a b. a \<in> ?S \<Longrightarrow> b \<in> ?S \<Longrightarrow> max_select a b = ?g a b" by (rule eq)
    show "\<And>a b. ?g a b = a \<or> ?g a b = b" by (rule gsel)
    show "x \<in> ?S" "set xs \<subseteq> ?S" using ps by auto
  qed
  finally show ?thesis
    using foldl_key_select_first_max [where k = "\<lambda>q. qrank (fst q)" and x = x and xs = xs] ps by auto
qed

text \<open>
  The arg-max over the lanes (\<open>split_select_quotient_target\<close> with the
  lane indices as target) returns a lane of largest score, and among lanes of equal
  largest score the one of lowest index, provided every lane's denominator is positive
  and no cross product overflows the 32-bit arithmetic.
\<close>

lemma split_select_target_first_max:
  assumes "qs \<noteq> []"
    and "\<forall>a\<in>set qs. 0 < unat (den a)"
    and "\<forall>a\<in>set qs. \<forall>b\<in>set qs. unat (num a) * unat (den b) < 2 ^ 32"
  shows "\<exists>i < length qs. split_select_target qs [0..<length qs] = Some (qs ! i, i) \<and>
           (\<forall>j < length qs. qrank (qs ! j) \<le> qrank (qs ! i)) \<and>
           (\<forall>j < i. qrank (qs ! j) < qrank (qs ! i))"
proof -
  let ?ps = "zip qs [0..<length qs]"
  have "map fst ?ps = qs" by simp
  then have fst_set: "\<And>a. a \<in> set ?ps \<Longrightarrow> fst a \<in> set qs" by (metis set_map imageI)
  have ne: "?ps \<noteq> []" using assms(1) by (cases qs) auto
  have "\<exists>p < length ?ps. tournament max_select ?ps = Some (?ps ! p) \<and>
           (\<forall>j < length ?ps. qrank (fst (?ps ! j)) \<le> qrank (fst (?ps ! p))) \<and>
           (\<forall>j < p. qrank (fst (?ps ! j)) < qrank (fst (?ps ! p)))"
    using assms(2,3) fst_set by (intro tournament_max_select [OF ne]) blast+
  then obtain p where p: "p < length qs" and t: "tournament max_select ?ps = Some (?ps ! p)"
    and le: "\<forall>j < length qs. qrank (fst (?ps ! j)) \<le> qrank (fst (?ps ! p))"
    and lt: "\<forall>j < p. qrank (fst (?ps ! j)) < qrank (fst (?ps ! p))"
    by auto
  have nth: "\<And>j. j < length qs \<Longrightarrow> ?ps ! j = (qs ! j, j)" by simp
  show ?thesis
  proof (intro exI [of _ p] conjI)
    show "p < length qs" by (fact p)
    show "split_select_target qs [0..<length qs] = Some (qs ! p, p)"
      using t nth [OF p] by (simp add: split_select_target_def)
    show "\<forall>j < length qs. qrank (qs ! j) \<le> qrank (qs ! p)"
      using le nth p by auto
    show "\<forall>j < p. qrank (qs ! j) < qrank (qs ! p)"
      using lt nth p by auto
  qed
qed

text \<open>
  The maximum over a non-empty vector of quotients with positive
  denominators and no overflow is a quotient of the vector of largest score, the
  first one among equal scores.
\<close>

lemma max_quotient_first_max:
  assumes "qs \<noteq> []"
    and "\<forall>a\<in>set qs. 0 < unat (den a)"
    and "\<forall>a\<in>set qs. \<forall>b\<in>set qs. unat (num a) * unat (den b) < 2 ^ 32"
  shows "\<exists>i < length qs. max_quotient qs = Some (qs ! i) \<and>
           (\<forall>j < length qs. qrank (qs ! j) \<le> qrank (qs ! i)) \<and>
           (\<forall>j < i. qrank (qs ! j) < qrank (qs ! i))"
proof -
  let ?ps = "map (\<lambda>q. (q, ())) qs"
  have "\<exists>p < length ?ps. tournament max_select ?ps = Some (?ps ! p) \<and>
           (\<forall>j < length ?ps. qrank (fst (?ps ! j)) \<le> qrank (fst (?ps ! p))) \<and>
           (\<forall>j < p. qrank (fst (?ps ! j)) < qrank (fst (?ps ! p)))"
    using assms by (intro tournament_max_select) auto
  then show ?thesis by (auto simp: max_quotient_def)
qed

text \<open>
  An element that no right-hand rival replaces stays at the head of every round, so
  the tournament returns it whatever follows.
\<close>

lemma tournament_keep_head:
  assumes keep: "\<And>b. f x b = x"
  shows "xs \<noteq> [] \<Longrightarrow> hd xs = x \<Longrightarrow> tournament f xs = Some x"
proof (induction xs rule: length_induct)
  case (1 xs)
  then obtain ys where xs: "xs = x # ys" by (cases xs) auto
  show ?case
  proof (cases ys)
    case Nil
    with xs show ?thesis by simp
  next
    case (Cons z zs)
    have r: "tourn_round f xs = x # tourn_round f zs" using xs Cons keep [of z] by simp
    have "length (tourn_round f xs) < length xs" using xs Cons by (simp add: length_tourn_round)
    with r "1.IH" have "tournament f (tourn_round f xs) = Some x" by auto
    with xs Cons show ?thesis by (simp add: tournament_Cons)
  qed
qed

lemma quot_less_zero: "num a = 0 \<Longrightarrow> den a = 0 \<Longrightarrow> \<not> quot_less a b"
  by (simp add: quot_less_def)

lemma tournament_Some: "xs \<noteq> [] \<Longrightarrow> \<exists>x. tournament f xs = Some x"
proof (induction xs rule: length_induct)
  case (1 xs)
  then obtain y ys where xs: "xs = y # ys" by (cases xs) auto
  show ?case
  proof (cases ys)
    case Nil
    with xs show ?thesis by simp
  next
    case (Cons z zs)
    have "length (tourn_round f xs) < length xs" using xs Cons by (simp add: length_tourn_round)
    moreover have "tourn_round f xs \<noteq> []" using xs Cons by simp
    ultimately obtain x where "tournament f (tourn_round f xs) = Some x" using "1.IH" by blast
    with xs Cons show ?thesis by (auto simp: tournament_Cons)
  qed
qed

lemma max_quotient_Some: "qs \<noteq> [] \<Longrightarrow> \<exists>q. max_quotient qs = Some q"
  using tournament_Some [of "map (\<lambda>q. (q, ())) qs" max_select] by (auto simp: max_quotient_def)

end
