(* ===== verification/Circuit.thy ===== *)
theory Circuit
  imports Input Gadgets
begin

text \<open>
  The input side of the circuit builder \<open>SecureEpilinker::SELCircuit\<close>
  (component C7, \<open>secure_epilinker.cpp\<close>): its state, \<open>set_constants\<close>, the real and
  dummy input setters and their composition \<open>set_client_input\<close>,
  \<open>set_server_input\<close> and \<open>set_both_inputs\<close>.

  A share is read lane by lane (one lane per database row, \<open>nvals\<close> lanes).  A
  \<open>ValueShare\<close> that a party holds for real is the list of its lane values: the
  field value as a bit list of width \<open>bitsize\<close>, the precomputed Hamming weight (set
  for \<open>DICE\<close> fields only) and the 32-bit non-empty flag \<open>delta\<close>.  A dummy share is
  a placeholder whose value the other party supplies; an unset share is the
  default-constructed (null) share.  Each lane of a SIMD input reads the payload of one
  row, \<open>bitsize\<close> bits from the start of the row's bytes.
\<close>

record value_share =
  vs_val :: "bool list list"
  vs_hw :: "nat list option"
  vs_delta :: "circ_unit list"

datatype party_share = Unset | Dummy | Real value_share

record input_shares =
  client_in :: party_share
  server_in :: party_share

text \<open>
  The members of \<open>SELCircuit\<close> that carry data: \<open>cfg\<close>, \<open>ins\<close> (the map from field
  names to the input shares, created with the keys of \<open>cfg.fields\<close>), the constant
  index vector \<open>const_idx\<close>, the constants \<open>const_threshold\<close> and
  \<open>const_tthreshold\<close>, \<open>nvals\<close> and \<open>is_input_set\<close>.
\<close>

record sel_circuit =
  circ_cfg :: epilink_config
  ins :: "(field_name \<times> input_shares) list"
  const_idx :: "nat list"
  const_threshold :: circ_unit
  const_tthreshold :: circ_unit
  sc_nvals :: nat
  is_input_set :: bool

definition make_sel_circuit :: "epilink_config \<Rightarrow> sel_circuit" where
  "make_sel_circuit cfg =
     \<lparr>circ_cfg = cfg,
      ins = map (\<lambda>(k, _). (k, \<lparr>client_in = Unset, server_in = Unset\<rparr>)) (cfg_fields cfg),
      const_idx = [], const_threshold = 0, const_tthreshold = 0, sc_nvals = 0,
      is_input_set = False\<rparr>"

text \<open>\<open>ins[i]\<close> updated in place (the key is always present, see \<open>ins_keys\<close>).\<close>

definition update_ins :: "field_name \<Rightarrow> (input_shares \<Rightarrow> input_shares) \<Rightarrow> sel_circuit \<Rightarrow> sel_circuit" where
  "update_ins i g st = st\<lparr>ins := map (\<lambda>(k, s). if k = i then (k, g s) else (k, s)) (ins st)\<rparr>"

subsection \<open>Constants\<close>

text \<open>
  The conversion of a \<open>double\<close> to \<open>CircUnit\<close>: truncation towards zero (a value
  outside the range of \<open>uint32_t\<close> is undefined in C++; here it wraps).
\<close>

definition double_to_circ :: "rat \<Rightarrow> circ_unit" where
  "double_to_circ x = word_of_int (if 0 \<le> x then \<lfloor>x\<rfloor> else \<lceil>x\<rceil>)"

text \<open>
  \<open>set_constants(uint32_t nvals)\<close>: the constant index vector
  \<open>constant(bcirc, i, ceil_log2_min1(nvals))\<close> for \<open>i = 0, ..., nvals-1\<close> (a constant
  of width \<open>k\<close> keeps the low \<open>k\<close> bits of \<open>i\<close>), and
  \<open>T = threshold * (1 << dice_prec)\<close>, \<open>Tt = tthreshold * (1 << dice_prec)\<close> as
  \<open>CircUnit\<close>.  The \<open>size_t\<close> argument of the callers is narrowed to \<open>uint32_t\<close>.
\<close>

definition nvals32 :: "nat \<Rightarrow> nat" where
  "nvals32 n = unat (of_nat n :: 32 word)"

definition set_constants :: "sel_circuit \<Rightarrow> nat \<Rightarrow> sel_circuit" where
  "set_constants st nvals =
     (let cfg = circ_cfg st;
          numbers = map (\<lambda>i. i mod 2 ^ ceil_log2_min1 nvals) [0..<nvals];
          scale = (2 :: rat) ^ unat (dice_prec cfg)
      in st\<lparr>sc_nvals := nvals, const_idx := numbers,
            const_threshold := double_to_circ (threshold cfg * scale),
            const_tthreshold := double_to_circ (tthreshold cfg * scale)\<rparr>)"

subsection \<open>Real inputs\<close>

text \<open>The first \<open>k\<close> bits of a row's bitmask: one lane of a SIMD boolean input.\<close>

definition lane_bits :: "nat \<Rightarrow> bitmask \<Rightarrow> bool list" where
  "lane_bits k v = take k (bm_bits v)"

text \<open>A \<open>CircUnit\<close> input of width \<open>k\<close> keeps its low \<open>k\<close> bits.\<close>

definition lane_unit :: "nat \<Rightarrow> circ_unit \<Rightarrow> nat" where
  "lane_unit k x = unat x mod 2 ^ k"

text \<open>\<open>entry.value_or(Bitmask(bytesize))\<close>: an empty entry reads as zero bytes.\<close>

definition entry_value :: "nat \<Rightarrow> field_entry \<Rightarrow> bitmask" where
  "entry_value bits entry = (case entry of Some v \<Rightarrow> v | None \<Rightarrow> replicate (bitbytes bits) 0)"

text \<open>
  The client's share of one field: value, Hamming weight (for \<open>DICE\<close> fields) and the
  flag \<open>has_value()\<close>, each repeated on all \<open>n\<close> lanes.
\<close>

definition client_value_share :: "nat \<Rightarrow> epilink_config \<Rightarrow> ml_field \<Rightarrow> field_entry \<Rightarrow> value_share" where
  "client_value_share n cfg f entry =
     (let value = entry_value (bitsize f) entry
      in \<lparr>vs_val = replicate n (lane_bits (bitsize f) value),
          vs_hw = (if comparator f = DICE
                   then Some (replicate n (lane_unit (size_hw cfg) (hw value))) else None),
          vs_delta = replicate n (of_bool (entry \<noteq> None))\<rparr>)"

text \<open>
  One iteration of \<open>set_real_client_input\<close> for field \<open>i\<close>: \<open>input.record.at(i)\<close>,
  the size check \<open>check_vector_size(value, bytesize)\<close>, then \<open>ins[i].client\<close>.
\<close>

definition client_field_input ::
  "sel_circuit \<Rightarrow> epilink_client_input \<Rightarrow> field_name \<times> ml_field \<Rightarrow> sel_error + sel_circuit" where
  "client_field_input st input fi =
     (let (i, f) = fi
      in case map_at (client_record input) i of
           Inl e \<Rightarrow> Inl e
         | Inr entry \<Rightarrow>
             if length (entry_value (bitsize f) entry) \<noteq> bitbytes (bitsize f) then Inl SizeMismatch
             else Inr (update_ins i (\<lambda>s. s\<lparr>client_in :=
                         Real (client_value_share (sc_nvals st) (circ_cfg st) f entry)\<rparr>) st))"

definition set_real_client_input :: "sel_circuit \<Rightarrow> epilink_client_input \<Rightarrow> sel_error + sel_circuit" where
  "set_real_client_input st input =
     (if sc_nvals st = 0 then Inl AssertFailed
      else fold_sum (\<lambda>s fi. client_field_input s input fi) (cfg_fields (circ_cfg st)) st)"

text \<open>
  The server's share of one field from the first \<open>n\<close> rows of its column: one lane
  per row (\<open>concat_vec(values)\<close>, \<open>hw(values)\<close>, \<open>db_delta\<close>).
\<close>

definition server_value_share :: "nat \<Rightarrow> epilink_config \<Rightarrow> ml_field \<Rightarrow> vfield_entry \<Rightarrow> value_share" where
  "server_value_share n cfg f entries =
     (let values = map (entry_value (bitsize f)) (take n entries)
      in \<lparr>vs_val = map (lane_bits (bitsize f)) values,
          vs_hw = (if comparator f = DICE
                   then Some (map (lane_unit (size_hw cfg) \<circ> hw) values) else None),
          vs_delta = map (\<lambda>e. of_bool (e \<noteq> None)) (take n entries)\<rparr>)"

text \<open>
  One iteration of \<open>set_real_server_input\<close> for field \<open>i\<close>: the column
  \<open>input.database.at(i)\<close>, the size check of every row
  (\<open>check_vectors_size\<close>), then \<open>ins[i].server\<close>.  The loops read rows
  \<open>0, ..., nvals-1\<close> of the column, past its end if it has fewer rows (undefined).
\<close>

definition server_field_input ::
  "sel_circuit \<Rightarrow> epilink_server_input \<Rightarrow> field_name \<times> ml_field \<Rightarrow> sel_error + sel_circuit" where
  "server_field_input st input fi =
     (let (i, f) = fi
      in case map_at (database input) i of
           Inl e \<Rightarrow> Inl e
         | Inr entries \<Rightarrow>
             if \<not> list_all (\<lambda>e. length (entry_value (bitsize f) e) = bitbytes (bitsize f)) entries
             then Inl SizeMismatch
             else if length entries < sc_nvals st then Inl Undefined
             else Inr (update_ins i (\<lambda>s. s\<lparr>server_in :=
                         Real (server_value_share (sc_nvals st) (circ_cfg st) f entries)\<rparr>) st))"

definition set_real_server_input :: "sel_circuit \<Rightarrow> epilink_server_input \<Rightarrow> sel_error + sel_circuit" where
  "set_real_server_input st input =
     (if sc_nvals st = 0 then Inl AssertFailed
      else fold_sum (\<lambda>s fi. server_field_input s input fi) (cfg_fields (circ_cfg st)) st)"

subsection \<open>Dummy inputs and the composed setters\<close>

definition set_dummy_client_input :: "sel_circuit \<Rightarrow> sel_error + sel_circuit" where
  "set_dummy_client_input st =
     (if sc_nvals st = 0 then Inl AssertFailed
      else Inr (fold (\<lambda>(i, _) s. update_ins i (\<lambda>x. x\<lparr>client_in := Dummy\<rparr>) s)
                     (cfg_fields (circ_cfg st)) st))"

definition set_dummy_server_input :: "sel_circuit \<Rightarrow> sel_error + sel_circuit" where
  "set_dummy_server_input st =
     (if sc_nvals st = 0 then Inl AssertFailed
      else Inr (fold (\<lambda>(i, _) s. update_ins i (\<lambda>x. x\<lparr>server_in := Dummy\<rparr>) s)
                     (cfg_fields (circ_cfg st)) st))"

definition set_client_input :: "sel_circuit \<Rightarrow> epilink_client_input \<Rightarrow> sel_error + sel_circuit" where
  "set_client_input st input =
     (case set_real_client_input (set_constants st (nvals32 (client_nvals input))) input of
        Inl e \<Rightarrow> Inl e
      | Inr st1 \<Rightarrow>
          (case set_dummy_server_input st1 of
             Inl e \<Rightarrow> Inl e
           | Inr st2 \<Rightarrow> Inr (st2\<lparr>is_input_set := True\<rparr>)))"

definition set_server_input :: "sel_circuit \<Rightarrow> epilink_server_input \<Rightarrow> sel_error + sel_circuit" where
  "set_server_input st input =
     (case set_real_server_input (set_constants st (nvals32 (server_nvals input))) input of
        Inl e \<Rightarrow> Inl e
      | Inr st1 \<Rightarrow>
          (case set_dummy_client_input st1 of
             Inl e \<Rightarrow> Inl e
           | Inr st2 \<Rightarrow> Inr (st2\<lparr>is_input_set := True\<rparr>)))"

text \<open>\<open>set_both_inputs\<close> (debug builds): both real inputs, the client's \<open>nvals\<close>.\<close>

definition set_both_inputs ::
  "sel_circuit \<Rightarrow> epilink_client_input \<Rightarrow> epilink_server_input \<Rightarrow> sel_error + sel_circuit" where
  "set_both_inputs st in_client in_server =
     (case set_real_client_input (set_constants st (nvals32 (client_nvals in_client))) in_client of
        Inl e \<Rightarrow> Inl e
      | Inr st1 \<Rightarrow>
          (case set_real_server_input st1 in_server of
             Inl e \<Rightarrow> Inl e
           | Inr st2 \<Rightarrow> Inr (st2\<lparr>is_input_set := True\<rparr>)))"

text \<open>What the real input setters accept: every field is present and has the byte length
  of its bitsize; the server's columns have at least \<open>n\<close> rows.\<close>

definition client_input_ok :: "field_map \<Rightarrow> epilink_client_input \<Rightarrow> bool" where
  "client_input_ok fs input \<longleftrightarrow>
     list_all (\<lambda>(i, f). case map_of (client_record input) i of
                        None \<Rightarrow> False
                      | Some entry \<Rightarrow> length (entry_value (bitsize f) entry) = bitbytes (bitsize f)) fs"

definition server_input_ok :: "field_map \<Rightarrow> epilink_server_input \<Rightarrow> nat \<Rightarrow> bool" where
  "server_input_ok fs input n \<longleftrightarrow>
     list_all (\<lambda>(i, f). case map_of (database input) i of
                        None \<Rightarrow> False
                      | Some entries \<Rightarrow>
                          list_all (\<lambda>e. length (entry_value (bitsize f) e) = bitbytes (bitsize f)) entries
                          \<and> n \<le> length entries) fs"

subsection \<open>The share map\<close>

lemma update_ins_sel [simp]:
  "circ_cfg (update_ins i g st) = circ_cfg st"
  "sc_nvals (update_ins i g st) = sc_nvals st"
  "const_idx (update_ins i g st) = const_idx st"
  "const_threshold (update_ins i g st) = const_threshold st"
  "const_tthreshold (update_ins i g st) = const_tthreshold st"
  "is_input_set (update_ins i g st) = is_input_set st"
  unfolding update_ins_def by simp_all

lemma map_of_map_case: "map_of (map (\<lambda>(k, s). (k, h k s)) xs) k = map_option (h k) (map_of xs k)"
  by (induction xs) auto

lemma fold_update_ins:
  "distinct (map fst fs) \<Longrightarrow>
   fold (\<lambda>(i, f) s. update_ins i (G i f) s) fs st =
   st\<lparr>ins := map (\<lambda>(k, s). (k, case map_of fs k of Some f \<Rightarrow> G k f s | None \<Rightarrow> s)) (ins st)\<rparr>"
proof (induction fs arbitrary: st)
  case Nil
  have "map (\<lambda>(k, s). (k, s)) (ins st) = ins st" by (induction "ins st") auto
  then show ?case by simp
next
  case (Cons fi fs)
  obtain i f where fi: "fi = (i, f)" by fastforce
  with Cons.prems have i: "map_of fs i = None" and d: "distinct (map fst fs)"
    by (auto simp: map_of_eq_None_iff)
  have "map (\<lambda>(k, s). (k, case map_of fs k of Some f \<Rightarrow> G k f s | None \<Rightarrow> s))
          (map (\<lambda>(k, s). if k = i then (k, G i f s) else (k, s)) (ins st)) =
        map (\<lambda>(k, s). (k, case map_of (fi # fs) k of Some f \<Rightarrow> G k f s | None \<Rightarrow> s)) (ins st)"
    using i by (auto simp: fi)
  with Cons.IH [OF d, of "update_ins i (G i f) st"] show ?case
    by (simp add: fi update_ins_def)
qed

lemma map_case_comp:
  "(\<lambda>(k, s). (k, case m k of Some f \<Rightarrow> G2 k f s | None \<Rightarrow> s)) \<circ>
     (\<lambda>(k, s). (k, case m k of Some f \<Rightarrow> G1 k f s | None \<Rightarrow> s)) =
   (\<lambda>(k, s). (k, case m k of Some f \<Rightarrow> G2 k f (G1 k f s) | None \<Rightarrow> s))"
  by (rule ext) (auto split: option.splits)

lemma client_input_ok_Cons [simp]:
  "client_input_ok ((i, f) # fs) input \<longleftrightarrow>
     (case map_of (client_record input) i of
        None \<Rightarrow> False
      | Some entry \<Rightarrow> length (entry_value (bitsize f) entry) = bitbytes (bitsize f))
     \<and> client_input_ok fs input"
  by (simp add: client_input_ok_def)

lemma fold_sum_client:
  "client_input_ok fs input \<Longrightarrow>
   fold_sum (\<lambda>s fi. client_field_input s input fi) fs st =
   Inr (fold (\<lambda>(i, f) s. update_ins i (\<lambda>x. x\<lparr>client_in := Real (client_value_share (sc_nvals st)
          (circ_cfg st) f (the (map_of (client_record input) i)))\<rparr>) s) fs st)"
proof (induction fs arbitrary: st)
  case Nil
  then show ?case by simp
next
  case (Cons fi fs)
  obtain i f where fi: "fi = (i, f)" by fastforce
  with Cons.prems obtain entry where e: "map_of (client_record input) i = Some entry"
    and l: "length (entry_value (bitsize f) entry) = bitbytes (bitsize f)"
    and ok: "client_input_ok fs input"
    by (auto split: option.splits)
  let ?st1 = "update_ins i (\<lambda>x. x\<lparr>client_in := Real (client_value_share (sc_nvals st) (circ_cfg st) f entry)\<rparr>) st"
  have "client_field_input st input fi = Inr ?st1"
    using e l by (simp add: fi client_field_input_def map_at_def)
  with Cons.IH [OF ok, of ?st1] e show ?case by (simp add: fi)
qed

lemma fold_sum_client_Inr:
  "fold_sum (\<lambda>s fi. client_field_input s input fi) fs st = Inr st' \<Longrightarrow> client_input_ok fs input"
proof (induction fs arbitrary: st)
  case Nil
  then show ?case by (simp add: client_input_ok_def)
next
  case (Cons fi fs)
  obtain i f where fi: "fi = (i, f)" by fastforce
  obtain st1 where s1: "client_field_input st input fi = Inr st1"
    and r: "fold_sum (\<lambda>s fi. client_field_input s input fi) fs st1 = Inr st'"
    using Cons.prems by (cases "client_field_input st input fi") simp_all
  from s1 have "case map_of (client_record input) i of None \<Rightarrow> False
      | Some entry \<Rightarrow> length (entry_value (bitsize f) entry) = bitbytes (bitsize f)"
    by (auto simp: fi client_field_input_def split: option.splits sum.splits if_splits)
  with Cons.IH [OF r] show ?case by (simp add: fi)
qed


lemma server_input_ok_Cons [simp]:
  "server_input_ok ((i, f) # fs) input n \<longleftrightarrow>
     (case map_of (database input) i of
        None \<Rightarrow> False
      | Some entries \<Rightarrow>
          list_all (\<lambda>e. length (entry_value (bitsize f) e) = bitbytes (bitsize f)) entries
          \<and> n \<le> length entries)
     \<and> server_input_ok fs input n"
  by (simp add: server_input_ok_def)

lemma fold_sum_server:
  "server_input_ok fs input (sc_nvals st) \<Longrightarrow>
   fold_sum (\<lambda>s fi. server_field_input s input fi) fs st =
   Inr (fold (\<lambda>(i, f) s. update_ins i (\<lambda>x. x\<lparr>server_in := Real (server_value_share (sc_nvals st)
          (circ_cfg st) f (the (map_of (database input) i)))\<rparr>) s) fs st)"
proof (induction fs arbitrary: st)
  case Nil
  then show ?case by simp
next
  case (Cons fi fs)
  obtain i f where fi: "fi = (i, f)" by fastforce
  with Cons.prems obtain entries where e: "map_of (database input) i = Some entries"
    and l: "list_all (\<lambda>e. length (entry_value (bitsize f) e) = bitbytes (bitsize f)) entries"
    and n: "sc_nvals st \<le> length entries"
    and ok: "server_input_ok fs input (sc_nvals st)"
    by (auto split: option.splits)
  let ?st1 = "update_ins i (\<lambda>x. x\<lparr>server_in := Real (server_value_share (sc_nvals st) (circ_cfg st) f entries)\<rparr>) st"
  have "server_field_input st input fi = Inr ?st1"
    using e l n by (simp add: fi server_field_input_def map_at_def)
  moreover have "server_input_ok fs input (sc_nvals ?st1)" using ok by simp
  ultimately show ?case using Cons.IH [of ?st1] e by (simp add: fi)
qed

lemma fold_sum_server_Inr:
  "fold_sum (\<lambda>s fi. server_field_input s input fi) fs st = Inr st' \<Longrightarrow>
   server_input_ok fs input (sc_nvals st)"
proof (induction fs arbitrary: st)
  case Nil
  then show ?case by (simp add: server_input_ok_def)
next
  case (Cons fi fs)
  obtain i f where fi: "fi = (i, f)" by fastforce
  obtain st1 where s1: "server_field_input st input fi = Inr st1"
    and r: "fold_sum (\<lambda>s fi. server_field_input s input fi) fs st1 = Inr st'"
    using Cons.prems by (cases "server_field_input st input fi") simp_all
  from s1 have ok: "case map_of (database input) i of None \<Rightarrow> False
      | Some entries \<Rightarrow>
          list_all (\<lambda>e. length (entry_value (bitsize f) e) = bitbytes (bitsize f)) entries
          \<and> sc_nvals st \<le> length entries"
    by (auto simp: fi server_field_input_def map_at_def split: option.splits if_splits)
  from s1 have "sc_nvals st1 = sc_nvals st"
    by (auto simp: fi server_field_input_def map_at_def split: option.splits if_splits)
  with ok Cons.IH [OF r] show ?case by (simp add: fi)
qed

lemma set_constants_sel [simp]:
  "circ_cfg (set_constants st n) = circ_cfg st"
  "ins (set_constants st n) = ins st"
  "sc_nvals (set_constants st n) = n"
  "is_input_set (set_constants st n) = is_input_set st"
  unfolding set_constants_def by (simp_all add: Let_def)



lemma set_real_client_input_Inr:
  assumes d: "distinct (map fst (cfg_fields (circ_cfg st)))"
  shows "set_real_client_input st input = Inr st' \<longleftrightarrow>
     0 < sc_nvals st \<and> client_input_ok (cfg_fields (circ_cfg st)) input \<and>
     st' = st\<lparr>ins := map (\<lambda>(k, s). (k, case map_of (cfg_fields (circ_cfg st)) k of
               Some f \<Rightarrow> s\<lparr>client_in := Real (client_value_share (sc_nvals st) (circ_cfg st) f
                                               (the (map_of (client_record input) k)))\<rparr>
             | None \<Rightarrow> s)) (ins st)\<rparr>" (is "?l \<longleftrightarrow> ?r")
proof
  assume h: "set_real_client_input st input = Inr st'"
  then have n: "sc_nvals st \<noteq> 0" by (cases "sc_nvals st = 0") (simp_all add: set_real_client_input_def)
  with h have f: "fold_sum (\<lambda>s fi. client_field_input s input fi) (cfg_fields (circ_cfg st)) st = Inr st'"
    by (simp add: set_real_client_input_def)
  then have ok: "client_input_ok (cfg_fields (circ_cfg st)) input" by (rule fold_sum_client_Inr)
  from f ok d n show ?r
    by (simp add: fold_sum_client fold_update_ins)
next
  assume ?r
  with d show ?l
    by (simp add: set_real_client_input_def fold_sum_client fold_update_ins)
qed


lemma set_real_server_input_Inr:
  assumes d: "distinct (map fst (cfg_fields (circ_cfg st)))"
  shows "set_real_server_input st input = Inr st' \<longleftrightarrow>
     0 < sc_nvals st \<and> server_input_ok (cfg_fields (circ_cfg st)) input (sc_nvals st) \<and>
     st' = st\<lparr>ins := map (\<lambda>(k, s). (k, case map_of (cfg_fields (circ_cfg st)) k of
               Some f \<Rightarrow> s\<lparr>server_in := Real (server_value_share (sc_nvals st) (circ_cfg st) f
                                               (the (map_of (database input) k)))\<rparr>
             | None \<Rightarrow> s)) (ins st)\<rparr>" (is "?l \<longleftrightarrow> ?r")
proof
  assume h: ?l
  then have n: "sc_nvals st \<noteq> 0"
    by (cases "sc_nvals st = 0") (simp_all add: set_real_server_input_def)
  with h have f: "fold_sum (\<lambda>s fi. server_field_input s input fi) (cfg_fields (circ_cfg st)) st = Inr st'"
    by (simp add: set_real_server_input_def)
  then have ok: "server_input_ok (cfg_fields (circ_cfg st)) input (sc_nvals st)"
    by (rule fold_sum_server_Inr)
  from f ok d n show ?r by (simp add: fold_sum_server fold_update_ins)
next
  assume ?r
  with d show ?l by (simp add: set_real_server_input_def fold_sum_server fold_update_ins)
qed

lemma set_dummy_client_input_eq:
  "distinct (map fst (cfg_fields (circ_cfg st))) \<Longrightarrow>
   set_dummy_client_input st =
     (if sc_nvals st = 0 then Inl AssertFailed
      else Inr (st\<lparr>ins := map (\<lambda>(k, s). (k, case map_of (cfg_fields (circ_cfg st)) k of
               Some f \<Rightarrow> s\<lparr>client_in := Dummy\<rparr> | None \<Rightarrow> s)) (ins st)\<rparr>))"
  by (simp add: set_dummy_client_input_def fold_update_ins)

lemma set_dummy_server_input_eq:
  "distinct (map fst (cfg_fields (circ_cfg st))) \<Longrightarrow>
   set_dummy_server_input st =
     (if sc_nvals st = 0 then Inl AssertFailed
      else Inr (st\<lparr>ins := map (\<lambda>(k, s). (k, case map_of (cfg_fields (circ_cfg st)) k of
               Some f \<Rightarrow> s\<lparr>server_in := Dummy\<rparr> | None \<Rightarrow> s)) (ins st)\<rparr>))"
  by (simp add: set_dummy_server_input_def fold_update_ins)

lemma set_client_input_Inr:
  assumes d: "distinct (map fst (cfg_fields (circ_cfg st)))"
  shows "set_client_input st input = Inr st' \<longleftrightarrow>
     0 < nvals32 (client_nvals input) \<and> client_input_ok (cfg_fields (circ_cfg st)) input \<and>
     st' = (set_constants st (nvals32 (client_nvals input)))\<lparr>ins :=
        map (\<lambda>(k, s). (k, case map_of (cfg_fields (circ_cfg st)) k of
               Some f \<Rightarrow> s\<lparr>client_in := Real (client_value_share (nvals32 (client_nvals input))
                                 (circ_cfg st) f (the (map_of (client_record input) k))),
                         server_in := Dummy\<rparr>
             | None \<Rightarrow> s)) (ins st),
        is_input_set := True\<rparr>"
proof -
  let ?st0 = "set_constants st (nvals32 (client_nvals input))"
  have d0: "distinct (map fst (cfg_fields (circ_cfg ?st0)))" using d by simp
  show ?thesis
  proof (cases "set_real_client_input ?st0 input")
    case (Inl e)
    have "\<not> (0 < nvals32 (client_nvals input) \<and> client_input_ok (cfg_fields (circ_cfg st)) input)"
    proof
      assume "0 < nvals32 (client_nvals input) \<and> client_input_ok (cfg_fields (circ_cfg st)) input"
      then have "\<exists>st1. set_real_client_input ?st0 input = Inr st1"
        using set_real_client_input_Inr [OF d0, of input] by simp
      with Inl show False by simp
    qed
    with Inl show ?thesis by (auto simp: set_client_input_def)
  next
    case (Inr st1)
    from set_real_client_input_Inr [OF d0, of input st1] Inr have r:
      "0 < sc_nvals ?st0 \<and> client_input_ok (cfg_fields (circ_cfg ?st0)) input \<and>
       st1 = ?st0\<lparr>ins := map (\<lambda>(k, s). (k, case map_of (cfg_fields (circ_cfg ?st0)) k of
               Some f \<Rightarrow> s\<lparr>client_in := Real (client_value_share (sc_nvals ?st0) (circ_cfg ?st0) f
                                               (the (map_of (client_record input) k)))\<rparr>
             | None \<Rightarrow> s)) (ins ?st0)\<rparr>"
      by blast
    from r have
      n: "0 < nvals32 (client_nvals input)" and ok: "client_input_ok (cfg_fields (circ_cfg st)) input"
      and st1: "st1 = ?st0\<lparr>ins := map (\<lambda>(k, s). (k, case map_of (cfg_fields (circ_cfg st)) k of
               Some f \<Rightarrow> s\<lparr>client_in := Real (client_value_share (nvals32 (client_nvals input))
                   (circ_cfg st) f (the (map_of (client_record input) k)))\<rparr>
             | None \<Rightarrow> s)) (ins st)\<rparr>"
      by (simp_all only: set_constants_sel)
    have d1: "distinct (map fst (cfg_fields (circ_cfg st1)))" using d st1 by simp
    have "set_dummy_server_input st1 = Inr (st1\<lparr>ins := map (\<lambda>(k, s). (k, case map_of (cfg_fields (circ_cfg st)) k of
               Some f \<Rightarrow> s\<lparr>server_in := Dummy\<rparr> | None \<Rightarrow> s)) (ins st1)\<rparr>)"
      using set_dummy_server_input_eq [OF d1] n st1 by simp
    with Inr st1 n ok show ?thesis by (auto simp: set_client_input_def map_case_comp)
  qed
qed

lemma set_server_input_Inr:
  assumes d: "distinct (map fst (cfg_fields (circ_cfg st)))"
  shows "set_server_input st input = Inr st' \<longleftrightarrow>
     0 < nvals32 (server_nvals input) \<and> server_input_ok (cfg_fields (circ_cfg st)) input (nvals32 (server_nvals input)) \<and>
     st' = (set_constants st (nvals32 (server_nvals input)))\<lparr>ins :=
        map (\<lambda>(k, s). (k, case map_of (cfg_fields (circ_cfg st)) k of
               Some f \<Rightarrow> s\<lparr>server_in := Real (server_value_share (nvals32 (server_nvals input))
                                 (circ_cfg st) f (the (map_of (database input) k))),
                         client_in := Dummy\<rparr>
             | None \<Rightarrow> s)) (ins st),
        is_input_set := True\<rparr>"
proof -
  let ?st0 = "set_constants st (nvals32 (server_nvals input))"
  have d0: "distinct (map fst (cfg_fields (circ_cfg ?st0)))" using d by simp
  show ?thesis
  proof (cases "set_real_server_input ?st0 input")
    case (Inl e)
    have "\<not> (0 < nvals32 (server_nvals input) \<and> server_input_ok (cfg_fields (circ_cfg st)) input (nvals32 (server_nvals input)))"
    proof
      assume "0 < nvals32 (server_nvals input) \<and> server_input_ok (cfg_fields (circ_cfg st)) input (nvals32 (server_nvals input))"
      then have "\<exists>st1. set_real_server_input ?st0 input = Inr st1"
        using set_real_server_input_Inr [OF d0, of input] by simp
      with Inl show False by simp
    qed
    with Inl show ?thesis by (auto simp: set_server_input_def)
  next
    case (Inr st1)
    from set_real_server_input_Inr [OF d0, of input st1] Inr have r:
      "0 < sc_nvals ?st0 \<and> server_input_ok (cfg_fields (circ_cfg ?st0)) input (sc_nvals ?st0) \<and>
       st1 = ?st0\<lparr>ins := map (\<lambda>(k, s). (k, case map_of (cfg_fields (circ_cfg ?st0)) k of
               Some f \<Rightarrow> s\<lparr>server_in := Real (server_value_share (sc_nvals ?st0) (circ_cfg ?st0) f
                                               (the (map_of (database input) k)))\<rparr>
             | None \<Rightarrow> s)) (ins ?st0)\<rparr>"
      by blast
    from r have
      n: "0 < nvals32 (server_nvals input)" and ok: "server_input_ok (cfg_fields (circ_cfg st)) input (nvals32 (server_nvals input))"
      and st1: "st1 = ?st0\<lparr>ins := map (\<lambda>(k, s). (k, case map_of (cfg_fields (circ_cfg st)) k of
               Some f \<Rightarrow> s\<lparr>server_in := Real (server_value_share (nvals32 (server_nvals input))
                   (circ_cfg st) f (the (map_of (database input) k)))\<rparr>
             | None \<Rightarrow> s)) (ins st)\<rparr>"
      by (simp_all only: set_constants_sel)
    have d1: "distinct (map fst (cfg_fields (circ_cfg st1)))" using d st1 by simp
    have "set_dummy_client_input st1 = Inr (st1\<lparr>ins := map (\<lambda>(k, s). (k, case map_of (cfg_fields (circ_cfg st)) k of
               Some f \<Rightarrow> s\<lparr>client_in := Dummy\<rparr> | None \<Rightarrow> s)) (ins st1)\<rparr>)"
      using set_dummy_client_input_eq [OF d1] n st1 by simp
    with Inr st1 n ok show ?thesis by (auto simp: set_server_input_def map_case_comp)
  qed
qed

lemma set_both_inputs_Inr:
  assumes d: "distinct (map fst (cfg_fields (circ_cfg st)))"
  shows "set_both_inputs st in_client in_server = Inr st' \<longleftrightarrow>
     0 < nvals32 (client_nvals in_client) \<and> client_input_ok (cfg_fields (circ_cfg st)) in_client \<and>
     server_input_ok (cfg_fields (circ_cfg st)) in_server (nvals32 (client_nvals in_client)) \<and>
     st' = (set_constants st (nvals32 (client_nvals in_client)))\<lparr>ins :=
        map (\<lambda>(k, s). (k, case map_of (cfg_fields (circ_cfg st)) k of
               Some f \<Rightarrow> s\<lparr>client_in := Real (client_value_share (nvals32 (client_nvals in_client))
                                 (circ_cfg st) f (the (map_of (client_record in_client) k))),
                         server_in := Real (server_value_share (nvals32 (client_nvals in_client))
                                 (circ_cfg st) f (the (map_of (database in_server) k)))\<rparr>
             | None \<Rightarrow> s)) (ins st),
        is_input_set := True\<rparr>"
proof -
  let ?n = "nvals32 (client_nvals in_client)"
  let ?st0 = "set_constants st ?n"
  have d0: "distinct (map fst (cfg_fields (circ_cfg ?st0)))" using d by simp
  show ?thesis
  proof (cases "set_real_client_input ?st0 in_client")
    case (Inl e)
    have "\<not> (0 < ?n \<and> client_input_ok (cfg_fields (circ_cfg st)) in_client)"
    proof
      assume "0 < ?n \<and> client_input_ok (cfg_fields (circ_cfg st)) in_client"
      then have "\<exists>st1. set_real_client_input ?st0 in_client = Inr st1"
        using set_real_client_input_Inr [OF d0, of in_client] by simp
      with Inl show False by simp
    qed
    with Inl show ?thesis by (auto simp: set_both_inputs_def)
  next
    case (Inr st1)
    from set_real_client_input_Inr [OF d0, of in_client st1] Inr have r:
      "0 < sc_nvals ?st0 \<and> client_input_ok (cfg_fields (circ_cfg ?st0)) in_client \<and>
       st1 = ?st0\<lparr>ins := map (\<lambda>(k, s). (k, case map_of (cfg_fields (circ_cfg ?st0)) k of
               Some f \<Rightarrow> s\<lparr>client_in := Real (client_value_share (sc_nvals ?st0) (circ_cfg ?st0) f
                                               (the (map_of (client_record in_client) k)))\<rparr>
             | None \<Rightarrow> s)) (ins ?st0)\<rparr>"
      by blast
    from r have n: "0 < ?n" and ok: "client_input_ok (cfg_fields (circ_cfg st)) in_client"
      and st1: "st1 = ?st0\<lparr>ins := map (\<lambda>(k, s). (k, case map_of (cfg_fields (circ_cfg st)) k of
               Some f \<Rightarrow> s\<lparr>client_in := Real (client_value_share ?n
                   (circ_cfg st) f (the (map_of (client_record in_client) k)))\<rparr>
             | None \<Rightarrow> s)) (ins st)\<rparr>"
      by (simp_all only: set_constants_sel)
    have d1: "distinct (map fst (cfg_fields (circ_cfg st1)))" using d st1 by simp
    have c1: "circ_cfg st1 = circ_cfg st" "sc_nvals st1 = ?n" using st1 by simp_all
    let ?F = "st1\<lparr>ins := map (\<lambda>(k, s). (k, case map_of (cfg_fields (circ_cfg st)) k of
               Some f \<Rightarrow> s\<lparr>server_in := Real (server_value_share ?n (circ_cfg st) f
                                               (the (map_of (database in_server) k)))\<rparr>
             | None \<Rightarrow> s)) (ins st1)\<rparr>"
    have srv: "set_real_server_input st1 in_server = Inr x \<longleftrightarrow>
       server_input_ok (cfg_fields (circ_cfg st)) in_server ?n \<and> x = ?F" for x
      using set_real_server_input_Inr [OF d1, of in_server x] n by (simp only: c1) simp
    show ?thesis
    proof (cases "server_input_ok (cfg_fields (circ_cfg st)) in_server ?n")
      case True
      then have "set_real_server_input st1 in_server = Inr ?F" using srv by simp
      with Inr st1 n ok True show ?thesis by (auto simp: set_both_inputs_def map_case_comp)
    next
      case False
      then obtain e where "set_real_server_input st1 in_server = Inl e"
        using srv by (cases "set_real_server_input st1 in_server") auto
      with Inr False show ?thesis by (simp add: set_both_inputs_def)
    qed
  qed
qed

subsection \<open>Constants and keys\<close>

text \<open>The width \<open>ceil_log2_min1(nvals)\<close> holds every index: the constants are exact.\<close>

lemma set_constants_idx: "const_idx (set_constants st n) = [0..<n]"
proof -
  have "i mod 2 ^ ceil_log2_min1 n = i" if "i < n" for i
    using that ceil_log2_min1_le [of n] by simp
  then have "map (\<lambda>i. i mod 2 ^ ceil_log2_min1 n) [0..<n] = map id [0..<n]"
    by (intro map_cong) simp_all
  then show ?thesis by (simp add: set_constants_def Let_def)
qed

lemma map_fst_map_case: "map fst (map (\<lambda>(k, s). (k, h k s)) xs) = map fst xs"
  by (induction xs) auto

lemma make_sel_circuit_keys: "map fst (ins (make_sel_circuit cfg)) = map fst (cfg_fields cfg)"
  by (induction "cfg_fields cfg") (auto simp: make_sel_circuit_def)

lemma input_shares_eta: "\<lparr>client_in = client_in s, server_in = server_in s\<rparr> = (s :: input_shares)"
  by (cases s) simp

lemma input_shares_upd2: "(s :: input_shares)\<lparr>client_in := a, server_in := b\<rparr> = \<lparr>client_in = a, server_in = b\<rparr>"
  by (cases s) simp

end
