(* ===== verification/Permutation.thy ===== *)
theory Permutation
  imports Prelude "HOL-Library.Multiset" "HOL-Library.Char_ord" "HOL-Library.List_Lexorder"
begin

text \<open>
  \<open>std::next_permutation\<close> (the C++ standard library, modelled from its
  specification) and the do-while loop of \<open>SELCircuit::best_group_weight\<close> that
  enumerates the permutations of an exchange group with it.  Field names are strings
  ordered as \<open>std::string\<close> orders them: lexicographically by unsigned character
  (\<open>Char_ord\<close>, \<open>List_Lexorder\<close>).

  \<open>next_perm\<close> finds the next permutation in lexicographic order by recursion on
  the list: if the tail has a next permutation, the head stays; otherwise the tail is
  non-increasing, and if the head is below the tail's first element, the head is
  swapped with the last tail element greater than it and the tail is reversed.
  \<open>next_permutation\<close> returns \<open>false\<close> with the reversed (sorted) range when there is
  no next permutation, as the standard prescribes.
\<close>

fun swap_last_greater :: "'a::linorder \<Rightarrow> 'a list \<Rightarrow> 'a \<times> 'a list" where
  "swap_last_greater x [] = (x, [])"
| "swap_last_greater x (y # ys) =
     (case ys of
        [] \<Rightarrow> (y, [x])
      | z # _ \<Rightarrow>
          if x < z then (let (u, ys') = swap_last_greater x ys in (u, y # ys'))
          else (y, x # ys))"

fun next_perm :: "'a::linorder list \<Rightarrow> 'a list option" where
  "next_perm [] = None"
| "next_perm (x # xs) =
     (case next_perm xs of
        Some ys \<Rightarrow> Some (x # ys)
      | None \<Rightarrow>
          (case xs of
             [] \<Rightarrow> None
           | y # _ \<Rightarrow>
               if x < y then (let (u, xs') = swap_last_greater x xs in Some (u # rev xs'))
               else None))"

definition next_permutation :: "'a::linorder list \<Rightarrow> 'a list \<times> bool" where
  "next_permutation p = (case next_perm p of Some q \<Rightarrow> (q, True) | None \<Rightarrow> (rev p, False))"

subsection \<open>Each step is a lexicographically larger permutation\<close>

lemma mset_swap_last_greater:
  "swap_last_greater x xs = (u, xs') \<Longrightarrow> mset (u # xs') = mset (x # xs)"
proof (induction x xs arbitrary: u xs' rule: swap_last_greater.induct)
  case (1 x)
  then show ?case by simp
next
  case (2 x y ys)
  show ?case
  proof (cases ys)
    case Nil
    with "2.prems" have "u = y" "xs' = [x]" by simp_all
    with Nil show ?thesis by (simp add: add_mset_commute)
  next
    case (Cons z zs)
    show ?thesis
    proof (cases "x < z")
      case True
      obtain v vs where r: "swap_last_greater x ys = (v, vs)" by fastforce
      with "2.prems" Cons True have "u = v" "xs' = y # vs" by auto
      moreover have "mset (v # vs) = mset (x # ys)" using "2.IH" Cons True r by blast
      ultimately show ?thesis by (simp add: add_mset_commute)
    next
      case False
      with "2.prems" Cons have "u = y" "xs' = x # ys" by simp_all
      then show ?thesis by (simp add: add_mset_commute)
    qed
  qed
qed

lemma swap_last_greater_gt:
  "xs \<noteq> [] \<Longrightarrow> x < hd xs \<Longrightarrow> x < fst (swap_last_greater x xs)"
proof (induction x xs rule: swap_last_greater.induct)
  case (1 x)
  then show ?case by simp
next
  case (2 x y ys)
  show ?case
  proof (cases ys)
    case Nil
    with "2.prems" show ?thesis by simp
  next
    case (Cons z zs)
    show ?thesis
    proof (cases "x < z")
      case True
      obtain v vs where r: "swap_last_greater x ys = (v, vs)" by fastforce
      have "x < v" using "2.IH" [OF Cons True] Cons True r by simp
      with Cons True r show ?thesis by simp
    next
      case False
      with "2.prems" Cons show ?thesis by simp
    qed
  qed
qed

lemma next_perm_mset_less:
  "next_perm p = Some q \<Longrightarrow> mset q = mset p \<and> p < q"
proof (induction p arbitrary: q)
  case Nil
  then show ?case by simp
next
  case (Cons x xs)
  show ?case
  proof (cases "next_perm xs")
    case (Some ys)
    with Cons.prems have q: "q = x # ys" by simp
    from Cons.IH [OF Some] have "mset ys = mset xs" "xs < ys" by simp_all
    with q show ?thesis by simp
  next
    case None
    obtain y ys where xs: "xs = y # ys"
      using Cons.prems None by (cases xs) simp_all
    have xy: "x < y"
      using Cons.prems None xs by (cases "x < y") simp_all
    obtain u xs' where r: "swap_last_greater x xs = (u, xs')" by fastforce
    with Cons.prems None xs xy have q: "q = u # rev xs'" by simp
    have "mset (u # xs') = mset (x # xs)" using r by (rule mset_swap_last_greater)
    moreover have "x < u" using swap_last_greater_gt [of xs x] xs xy r by simp
    ultimately show ?thesis using q by simp
  qed
qed

lemma next_permutation_True:
  "next_permutation p = (q, True) \<Longrightarrow> mset q = mset p \<and> p < q"
  by (cases "next_perm p") (simp_all add: next_permutation_def next_perm_mset_less)

subsection \<open>Each step is the next permutation\<close>

text \<open>A sorted list is the least, a non-increasing list the greatest arrangement of its elements.\<close>

lemma sorted_le_perm:
  "sorted xs \<Longrightarrow> mset r = mset xs \<Longrightarrow> xs \<le> r"
proof (induction xs arbitrary: r)
  case Nil
  then show ?case by simp
next
  case (Cons x xs)
  obtain y r' where r: "r = y # r'" using Cons.prems(2) by (cases r) auto
  have "y \<in> set (x # xs)" using Cons.prems(2) r by (metis list.set_intros(1) mset_eq_setD)
  then have xy: "x \<le> y" using Cons.prems(1) by auto
  show ?case
  proof (cases "x = y")
    case True
    then have "mset r' = mset xs" using Cons.prems(2) r by simp
    then have "xs \<le> r'" using Cons.IH Cons.prems(1) by simp
    with True r show ?thesis by simp
  next
    case False
    with xy r show ?thesis by simp
  qed
qed

lemma rsorted_ge_perm:
  fixes xs :: "'a::linorder list"
  shows "sorted_wrt (\<ge>) xs \<Longrightarrow> mset r = mset xs \<Longrightarrow> r \<le> xs"
proof (induction xs arbitrary: r)
  case Nil
  then show ?case by simp
next
  case (Cons x xs)
  obtain y r' where r: "r = y # r'" using Cons.prems(2) by (cases r) auto
  have "y \<in> set (x # xs)" using Cons.prems(2) r by (metis list.set_intros(1) mset_eq_setD)
  then have xy: "y \<le> x" using Cons.prems(1) by auto
  show ?case
  proof (cases "x = y")
    case True
    then have "mset r' = mset xs" using Cons.prems(2) r by simp
    then have "r' \<le> xs" using Cons.IH Cons.prems(1) by simp
    with True r show ?thesis by simp
  next
    case False
    with xy r show ?thesis by simp
  qed
qed

lemma next_perm_None: "next_perm p = None \<Longrightarrow> sorted_wrt (\<ge>) p"
proof (induction p)
  case Nil
  then show ?case by simp
next
  case (Cons x xs)
  then have n: "next_perm xs = None" by (cases "next_perm xs") simp_all
  then have s: "sorted_wrt (\<ge>) xs" by (rule Cons.IH)
  have "\<forall>z\<in>set xs. z \<le> x"
  proof (cases xs)
    case Nil
    then show ?thesis by simp
  next
    case (Cons y ys)
    have "\<not> x < y"
    proof
      assume xy: "x < y"
      obtain u xs' where "swap_last_greater x xs = (u, xs')" by fastforce
      with Cons.prems n Cons xy show False by simp
    qed
    with s Cons show ?thesis by auto
  qed
  with s show ?case by simp
qed

text \<open>
  The pivot exchange on a non-increasing suffix whose head is above \<open>x\<close>: the element
  brought forward is the least one above \<open>x\<close>, and the suffix stays non-increasing.
\<close>

lemma swap_last_greater_least:
  assumes "swap_last_greater x xs = (u, xs')" and "sorted_wrt (\<ge>) xs" and "xs \<noteq> []" and "x < hd xs"
  shows "u \<in> set xs \<and> x < u \<and> (\<forall>z\<in>set xs. x < z \<longrightarrow> u \<le> z) \<and> sorted_wrt (\<ge>) xs'"
  using assms
proof (induction x xs arbitrary: u xs' rule: swap_last_greater.induct)
  case (1 x)
  then show ?case by simp
next
  case (2 x y ys)
  show ?case
  proof (cases ys)
    case Nil
    with "2.prems" show ?thesis by auto
  next
    case (Cons z zs)
    show ?thesis
    proof (cases "x < z")
      case True
      obtain v vs where r: "swap_last_greater x ys = (v, vs)" by fastforce
      with "2.prems"(1) Cons True have u: "u = v" "xs' = y # vs" by auto
      have sy: "sorted_wrt (\<ge>) ys" and yge: "\<forall>w\<in>set ys. w \<le> y" using "2.prems"(2) by simp_all
      from "2.IH" [OF Cons True r sy] Cons True
      have iv: "v \<in> set ys" "x < v" "\<forall>w\<in>set ys. x < w \<longrightarrow> v \<le> w" "sorted_wrt (\<ge>) vs" by simp_all
      have "mset (v # vs) = mset (x # ys)" using r by (rule mset_swap_last_greater)
      then have "set vs \<subseteq> set (x # ys)" by (metis mset_eq_setD set_subset_Cons subset_trans)
      moreover have "x \<le> y" using True Cons yge by force
      ultimately have "\<forall>w\<in>set vs. w \<le> y" using yge by auto
      with iv yge u show ?thesis by auto
    next
      case False
      with "2.prems"(1) Cons have u: "u = y" "xs' = x # ys" by simp_all
      have sy: "sorted_wrt (\<ge>) ys" and yge: "\<forall>w\<in>set ys. w \<le> y" using "2.prems"(2) by simp_all
      have zle: "\<forall>w\<in>set ys. w \<le> x" using sy Cons False by auto
      then have "\<forall>w\<in>set ys. \<not> x < w" by auto
      with u zle sy "2.prems"(4) show ?thesis by auto
    qed
  qed
qed

text \<open>\<open>next_perm\<close> returns the next permutation: the least one above its argument.\<close>

lemma next_perm_least:
  "next_perm p = Some q \<Longrightarrow> mset r = mset p \<Longrightarrow> p < r \<Longrightarrow> q \<le> r"
proof (induction p arbitrary: q r)
  case Nil
  then show ?case by simp
next
  case (Cons x xs)
  obtain y r' where r: "r = y # r'" using Cons.prems(2) by (cases r) auto
  show ?case
  proof (cases "next_perm xs")
    case (Some ys)
    with Cons.prems(1) have q: "q = x # ys" by simp
    show ?thesis
    proof (cases "y = x")
      case True
      then have "mset r' = mset xs" "xs < r'" using Cons.prems(2,3) r by simp_all
      then have "ys \<le> r'" using Cons.IH [OF Some] by blast
      with q r True show ?thesis by simp
    next
      case False
      then have "x < y" using Cons.prems(3) r by simp
      with q r show ?thesis by simp
    qed
  next
    case None
    have s: "sorted_wrt (\<ge>) xs" using None by (rule next_perm_None)
    obtain z zs where xs: "xs = z # zs"
      using Cons.prems(1) None by (cases xs) simp_all
    have xz: "x < z"
      using Cons.prems(1) None xs by (cases "x < z") simp_all
    obtain u xs' where sw: "swap_last_greater x xs = (u, xs')" by fastforce
    with Cons.prems(1) None xs xz have q: "q = u # rev xs'" by simp
    from swap_last_greater_least [OF sw s] xs xz
    have uin: "u \<in> set xs" and xu: "x < u" and least: "\<forall>w\<in>set xs. x < w \<longrightarrow> u \<le> w"
      and s': "sorted_wrt (\<ge>) xs'" by simp_all
    have m: "mset (u # xs') = mset (x # xs)" using sw by (rule mset_swap_last_greater)
    have "y \<noteq> x"
    proof
      assume "y = x"
      then have "mset r' = mset xs" "xs < r'" using Cons.prems(2,3) r by simp_all
      moreover have "r' \<le> xs" using s \<open>mset r' = mset xs\<close> by (rule rsorted_ge_perm)
      ultimately show False by simp
    qed
    then have xy: "x < y" using Cons.prems(3) r by simp
    have "y \<in> set (x # xs)" using Cons.prems(2) r by (metis list.set_intros(1) mset_eq_setD)
    then have "u \<le> y" using least xy by auto
    show ?thesis
    proof (cases "u = y")
      case True
      have "mset (y # r') = mset (u # xs')" using Cons.prems(2) r m by simp
      then have "mset r' = mset xs'" using True by simp
      then have "rev xs' \<le> r'"
        using sorted_le_perm [of "rev xs'" r'] s' by (simp add: sorted_wrt_rev)
      with q r True show ?thesis by simp
    next
      case False
      with \<open>u \<le> y\<close> q r show ?thesis by simp
    qed
  qed
qed

text \<open>The permutations of \<open>p\<close> that lie above it form a finite set that a step shrinks.\<close>

definition perms_above :: "'a::linorder list \<Rightarrow> 'a list set" where
  "perms_above p = {q. mset q = mset p \<and> p < q}"

lemma finite_perms_above: "finite (perms_above p)"
proof -
  have "perms_above p \<subseteq> {q. set q \<subseteq> set p \<and> length q = length p}"
    by (auto simp: perms_above_def dest: mset_eq_setD mset_eq_length)
  moreover have "finite {q. set q \<subseteq> set p \<and> length q = length p}"
    by (rule finite_lists_length_eq) simp
  ultimately show ?thesis by (rule finite_subset)
qed

lemma perms_above_step:
  assumes "next_permutation p = (q, True)"
  shows "card (perms_above q) < card (perms_above p)"
proof -
  from next_permutation_True [OF assms] have m: "mset q = mset p" and l: "p < q" by simp_all
  have "perms_above q \<subset> perms_above p"
  proof
    show "perms_above q \<subseteq> perms_above p"
    proof
      fix r assume "r \<in> perms_above q"
      then have "mset r = mset q" "q < r" by (simp_all add: perms_above_def)
      with m l show "r \<in> perms_above p" by (simp add: perms_above_def)
    qed
    have "q \<in> perms_above p" using m l by (simp add: perms_above_def)
    moreover have "q \<notin> perms_above q" by (simp add: perms_above_def)
    ultimately show "perms_above q \<noteq> perms_above p" by blast
  qed
  then show ?thesis by (rule psubset_card_mono [OF finite_perms_above])
qed

subsection \<open>The enumeration loop\<close>

text \<open>
  \<open>do { ... body(groupPerm) ... } while (next_permutation(groupPerm))\<close>: the list of
  the permutations the body sees, in order.  The loop terminates: every step moves to a
  permutation lexicographically above the current one, of which there are finitely
  many.
\<close>

function perm_loop :: "'a::linorder list \<Rightarrow> 'a list list" where
  "perm_loop p = (case next_permutation p of (q, True) \<Rightarrow> p # perm_loop q | (_, False) \<Rightarrow> [p])"
  by pat_completeness auto
termination
  by (relation "measure (\<lambda>p. card (perms_above p))") (simp_all add: perms_above_step)

declare perm_loop.simps [simp del]

text \<open>The code equation, with the loop test as \<open>if\<close> (see \<open>tournament_code\<close>).\<close>

lemma perm_loop_code [code]:
  "perm_loop p = (if snd (next_permutation p) then p # perm_loop (fst (next_permutation p)) else [p])"
  by (cases "next_permutation p") (simp add: perm_loop.simps [of p] split: bool.splits)

lemma perm_loop_Cons: "\<exists>ps. perm_loop p = p # ps"
proof (cases "next_permutation p")
  case (Pair r b)
  then show ?thesis by (cases b) (simp_all add: perm_loop.simps [of p])
qed

lemma perm_loop_mset: "q \<in> set (perm_loop p) \<Longrightarrow> mset q = mset p"
proof (induction p rule: perm_loop.induct)
  case (1 p)
  show ?case
  proof (cases "next_permutation p")
    case (Pair r b)
    show ?thesis
    proof (cases b)
      case True
      with Pair have step: "next_permutation p = (r, True)" by simp
      with "1.prems" have "q = p \<or> q \<in> set (perm_loop r)" by (simp add: perm_loop.simps [of p])
      moreover have "q \<in> set (perm_loop r) \<Longrightarrow> mset q = mset r"
        using "1.IH" [OF step [symmetric] refl] by simp
      ultimately show ?thesis using next_permutation_True [OF step] by (cases "q = p") simp_all
    next
      case False
      with Pair "1.prems" show ?thesis by (simp add: perm_loop.simps [of p])
    qed
  qed
qed

lemma perm_loop_sorted: "sorted_wrt (<) (perm_loop p)"
proof (induction p rule: perm_loop.induct)
  case (1 p)
  show ?case
  proof (cases "next_permutation p")
    case (Pair r b)
    show ?thesis
    proof (cases b)
      case True
      with Pair have step: "next_permutation p = (r, True)" by simp
      have ih: "sorted_wrt (<) (perm_loop r)" using "1.IH" [OF step [symmetric] refl] .
      have "\<forall>q\<in>set (perm_loop r). p < q"
      proof
        fix q assume "q \<in> set (perm_loop r)"
        moreover obtain ps where ps: "perm_loop r = r # ps" using perm_loop_Cons [of r] by blast
        ultimately have "q = r \<or> r < q" using ih by (cases "q = r") simp_all
        moreover have "p < r" using next_permutation_True [OF step] by simp
        ultimately show "p < q" using order.strict_trans [of p r q] by (cases "q = r") simp_all
      qed
      with ih step show ?thesis by (simp add: perm_loop.simps [of p])
    next
      case False
      with Pair show ?thesis by (simp add: perm_loop.simps [of p])
    qed
  qed
qed

lemma perm_loop_ne: "perm_loop p \<noteq> []"
  using perm_loop_Cons [of p] by auto

lemma next_permutation_Some: "next_permutation p = (q, True) \<longleftrightarrow> next_perm p = Some q"
  by (cases "next_perm p") (simp_all add: next_permutation_def)

lemma perm_loop_complete: "mset r = mset p \<Longrightarrow> p \<le> r \<Longrightarrow> r \<in> set (perm_loop p)"
proof (induction p rule: perm_loop.induct)
  case (1 p)
  show ?case
  proof (cases "r = p")
    case True
    then show ?thesis using perm_loop_Cons [of p] by force
  next
    case False
    then have pr: "p < r" using "1.prems"(2) by simp
    show ?thesis
    proof (cases "next_perm p")
      case None
      then have "r \<le> p" using next_perm_None "1.prems"(1) by (blast intro: rsorted_ge_perm)
      with pr show ?thesis by simp
    next
      case (Some q)
      then have step: "next_permutation p = (q, True)" by (simp add: next_permutation_Some)
      have "q \<le> r" using next_perm_least [OF Some "1.prems"(1) pr] .
      moreover have "mset r = mset q" using next_perm_mset_less [OF Some] "1.prems"(1) by simp
      ultimately have "r \<in> set (perm_loop q)" using "1.IH" [OF step [symmetric] refl] by blast
      then show ?thesis using step by (simp add: perm_loop.simps [of p])
    qed
  qed
qed

text \<open>
  Claim C14: The do-while loop of \<open>best_group_weight\<close> over \<open>next_permutation\<close> starts
  with the group itself and visits, in strictly increasing lexicographic order and so
  each once, exactly the permutations of the group that are not below it; for a group
  in the sorted order of its \<open>std::set\<close>, that is every permutation of the group.
\<close>

theorem perm_loop_enumerates:
  "hd (perm_loop p) = p \<and> sorted_wrt (<) (perm_loop p) \<and>
   set (perm_loop p) = {q. mset q = mset p \<and> p \<le> q} \<and>
   (sorted p \<longrightarrow> set (perm_loop p) = {q. mset q = mset p})"
proof -
  obtain ps where ps: "perm_loop p = p # ps" using perm_loop_Cons [of p] by blast
  have s: "sorted_wrt (<) (perm_loop p)" by (rule perm_loop_sorted)
  have "set (perm_loop p) = {q. mset q = mset p \<and> p \<le> q}"
  proof
    show "set (perm_loop p) \<subseteq> {q. mset q = mset p \<and> p \<le> q}"
    proof
      fix q assume q: "q \<in> set (perm_loop p)"
      then have "q = p \<or> p < q" using s ps by auto
      with perm_loop_mset [OF q] show "q \<in> {q. mset q = mset p \<and> p \<le> q}" by auto
    qed
    show "{q. mset q = mset p \<and> p \<le> q} \<subseteq> set (perm_loop p)"
      by (auto intro: perm_loop_complete)
  qed
  moreover have "sorted p \<Longrightarrow> {q. mset q = mset p \<and> p \<le> q} = {q. mset q = mset p}"
    by (auto intro: sorted_le_perm)
  ultimately show ?thesis using s ps by simp
qed

end
