(* ===== verification/Linkage.thy ===== *)
theory Linkage
  imports Circuit Permutation
begin

text \<open>
  The shared part of the linkage circuit (component C7, \<open>secure_epilinker.cpp\<close>):
  \<open>SELCircuit::field_weight\<close>, \<open>best_group_weight\<close> and \<open>build_circuit\<close>, evaluated
  on the joint inputs of both parties.  The circuit is built by each party on its own
  shares, the backend executes it on the values behind them: a lane's value is the
  value the holder of the share put in.  \<open>build_circuit\<close> is therefore given a state
  in which the client's and the server's shares are both the real ones
  (\<open>merge_parties\<close> puts them together from the two parties' states).  Every
  arithmetic gate computes modulo \<open>2^32\<close> (\<open>circ_unit\<close>); the boolean gadgets are
  those of \<open>Gadgets\<close>.
\<close>

subsection \<open>Reading the input shares\<close>

text \<open>A null (unset) share cannot be used: the backend fails on it.\<close>

definition real_share :: "party_share \<Rightarrow> sel_error + value_share" where
  "real_share p = (case p of Real vs \<Rightarrow> Inr vs | _ \<Rightarrow> Inl Undefined)"

text \<open>\<open>ins[ileft].client\<close> and \<open>ins[iright].server\<close>.\<close>

definition client_share :: "sel_circuit \<Rightarrow> field_name \<Rightarrow> sel_error + value_share" where
  "client_share st i = (case map_of (ins st) i of None \<Rightarrow> Inl Undefined | Some s \<Rightarrow> real_share (client_in s))"

definition server_share :: "sel_circuit \<Rightarrow> field_name \<Rightarrow> sel_error + value_share" where
  "server_share st i = (case map_of (ins st) i of None \<Rightarrow> Inl Undefined | Some s \<Rightarrow> real_share (server_in s))"

subsection \<open>Field weights\<close>

text \<open>
  \<open>CircUnit weight_r = rescale_weight((fleft.weight + fright.weight)/2,
  cfg.weight_prec, cfg.max_weight)\<close>: the \<open>unsigned long long\<close> narrowed to 32 bits.
\<close>

definition weight_r :: "epilink_config \<Rightarrow> ml_field \<Rightarrow> ml_field \<Rightarrow> circ_unit" where
  "weight_r cfg fl fr =
     ucast (rescale_weight ((weight fl + weight fr) / 2) (unat (weight_prec cfg)) (max_weight cfg))"

text \<open>
  The \<open>BM\<close> comparison: \<open>dice_coefficient\<close> of the two values and Hamming weights on
  every lane, converted to arithmetic (the 16-bit result is zero-padded).
\<close>

definition dice_lanes :: "nat \<Rightarrow> value_share \<Rightarrow> value_share \<Rightarrow> sel_error + circ_unit list" where
  "dice_lanes prec c s =
     (case (vs_hw c, vs_hw s) of
        (Some hc, Some hs) \<Rightarrow>
          Inr (map (\<lambda>((x, y), (hx, hy)). to_arith (dice_coefficient x y hx hy prec))
                   (zip (zip (vs_val c) (vs_val s)) (zip hc hs)))
      | _ \<Rightarrow> Inl Undefined)"

text \<open>
  The \<open>BIN\<close> comparison: \<open>equality\<close> converted to arithmetic and multiplied with the
  constant \<open>1 << dice_prec\<close>.
\<close>

definition equality_lanes :: "nat \<Rightarrow> value_share \<Rightarrow> value_share \<Rightarrow> circ_unit list" where
  "equality_lanes prec c s =
     map (\<lambda>(x, y). to_arith (of_bool (equality x y)) * 2 ^ prec) (zip (vs_val c) (vs_val s))"

text \<open>
  \<open>field_weight(ileft, iright)\<close>: the two lookups \<open>cfg.fields.at\<close>, the comparator and
  bitsize checks, \<open>weight = a_weight * (client.delta * server.delta)\<close>, the
  comparison by the comparator of the left field, and \<open>{weight * comp, weight}\<close>.
\<close>

definition field_weight :: "sel_circuit \<Rightarrow> field_name \<Rightarrow> field_name \<Rightarrow> sel_error + field_weight list" where
  "field_weight st il ir =
     (let cfg = circ_cfg st
      in case map_at (cfg_fields cfg) il of
           Inl e \<Rightarrow> Inl e
         | Inr fl \<Rightarrow>
             (case map_at (cfg_fields cfg) ir of
                Inl e \<Rightarrow> Inl e
              | Inr fr \<Rightarrow>
                  if comparator fl \<noteq> comparator fr then Inl ComparatorMismatch
                  else if bitsize fl \<noteq> bitsize fr then Inl BitsizeMismatch
                  else
                    (case client_share st il of
                       Inl e \<Rightarrow> Inl e
                     | Inr c \<Rightarrow>
                         (case server_share st ir of
                            Inl e \<Rightarrow> Inl e
                          | Inr s \<Rightarrow>
                              (let wr = weight_r cfg fl fr;
                                   wt = map (\<lambda>(dc, ds). wr * (dc * ds)) (zip (vs_delta c) (vs_delta s));
                                   comp = (if comparator fl = DICE
                                           then dice_lanes (unat (dice_prec cfg)) c s
                                           else Inr (equality_lanes (unat (dice_prec cfg)) c s))
                               in case comp of
                                    Inl e \<Rightarrow> Inl e
                                  | Inr cp \<Rightarrow>
                                      Inr (map (\<lambda>(x, y). \<lparr>fw = x * y, w = x\<rparr>) (zip wt cp)))))))"

text \<open>
  \<open>sum(field_weights)\<close> of SIMD field weights: on each of the \<open>n\<close> lanes, the
  quotient of the sums.
\<close>

definition sum_lanes :: "nat \<Rightarrow> field_weight list list \<Rightarrow> arith_quotient list" where
  "sum_lanes n fws = map (\<lambda>j. sum_field_weights (map (\<lambda>v. v ! j) fws)) [0..<n]"

subsection \<open>Exchange groups\<close>

text \<open>
  The body of the do-while loop of \<open>best_group_weight\<close> for one permutation: the
  field weights of \<open>(group[i], groupPerm[i])\<close> and their sum.
\<close>

definition perm_weight ::
  "sel_circuit \<Rightarrow> index_set \<Rightarrow> field_name list \<Rightarrow> sel_error + arith_quotient list" where
  "perm_weight st grp perm =
     (case map_sum (\<lambda>(il, ir). field_weight st il ir) (zip grp perm) of
        Inl e \<Rightarrow> Inl e
      | Inr fws \<Rightarrow> Inr (sum_lanes (sc_nvals st) fws))"

text \<open>
  \<open>best_group_weight(group_set)\<close>: one quotient per permutation of the group (the
  set's elements in order, then every \<open>next_permutation\<close>), then on each lane the
  largest of them, returned as a field weight.
\<close>

definition best_group_weight :: "sel_circuit \<Rightarrow> index_set \<Rightarrow> sel_error + field_weight list" where
  "best_group_weight st grp =
     (case map_sum (perm_weight st grp) (perm_loop grp) of
        Inl e \<Rightarrow> Inl e
      | Inr pws \<Rightarrow>
          (case map_sum (\<lambda>j. case max_quotient (map (\<lambda>q. q ! j) pws) of
                                None \<Rightarrow> Inl Undefined
                              | Some q \<Rightarrow> Inr q) [0..<sc_nvals st] of
             Inl e \<Rightarrow> Inl e
           | Inr qs \<Rightarrow> Inr (map (\<lambda>q. \<lparr>fw = num q, w = den q\<rparr>) qs)))"

subsection \<open>The circuit\<close>

text \<open>\<open>no_x_group.erase(i)\<close> for every field of a group; a field erased before throws.\<close>

definition erase_group :: "index_set \<Rightarrow> field_name list \<Rightarrow> sel_error + field_name list" where
  "erase_group grp nx =
     fold_sum (\<lambda>nx i. if i \<in> set nx then Inr (removeAll i nx) else Inl ExchangeGroupsNotDistinct) grp nx"

text \<open>One iteration of the loop over \<open>cfg.exchange_groups\<close>.\<close>

definition group_step ::
  "sel_circuit \<Rightarrow> field_weight list list \<times> field_name list \<Rightarrow> index_set
   \<Rightarrow> sel_error + field_weight list list \<times> field_name list" where
  "group_step st acc grp =
     (case best_group_weight st grp of
        Inl e \<Rightarrow> Inl e
      | Inr gw \<Rightarrow>
          (case erase_group grp (snd acc) of
             Inl e \<Rightarrow> Inl e
           | Inr nx \<Rightarrow> Inr (fst acc @ [gw], nx)))"

text \<open>\<open>ResultShares\<close> with the debug outputs \<open>score_numerator\<close> and \<open>score_denominator\<close>.\<close>

record result_shares =
  res_index :: nat
  res_match :: bool
  res_tmatch :: bool
  res_num :: circ_unit
  res_den :: circ_unit

text \<open>
  Steps 1 and 2 of \<open>build_circuit()\<close>: the group weights (in the order of
  \<open>cfg.exchange_groups\<close>), the field weights of the remaining fields (in key order),
  and their sum, one quotient \<open>N/D\<close> per lane.
\<close>

definition link_scores :: "sel_circuit \<Rightarrow> sel_error + arith_quotient list" where
  "link_scores st =
     (let cfg = circ_cfg st
      in case fold_sum (group_step st) (exchange_groups cfg) ([], map fst (cfg_fields cfg)) of
           Inl e \<Rightarrow> Inl e
         | Inr (gws, nx) \<Rightarrow>
             (case map_sum (\<lambda>i. field_weight st i i) nx of
                Inl e \<Rightarrow> Inl e
              | Inr rws \<Rightarrow> Inr (sum_lanes (sc_nvals st) (gws @ rws))))"

text \<open>
  \<open>build_circuit()\<close>: the scores, the arg-max over the lanes with the index vector
  \<open>const_idx\<close> as target (step 4), and the two comparisons \<open>T * D < N\<close> and
  \<open>Tt * D < N\<close>, unsigned on 32 bits (step 6).
\<close>

definition build_circuit :: "sel_circuit \<Rightarrow> sel_error + result_shares" where
  "build_circuit st =
     (case link_scores st of
        Inl e \<Rightarrow> Inl e
      | Inr qs \<Rightarrow>
          (case split_select_target qs (const_idx st) of
             None \<Rightarrow> Inl Undefined
           | Some (q, idx) \<Rightarrow>
               Inr \<lparr>res_index = idx,
                    res_match = const_threshold st * den q < num q,
                    res_tmatch = const_tthreshold st * den q < num q,
                    res_num = num q, res_den = den q\<rparr>))"

text \<open>
  The joint state the backend evaluates: the client's shares from the client's
  circuit, the server's shares from the server's.  The two parties must agree on the
  number of lanes; otherwise the backend fails.
\<close>

definition merge_parties :: "sel_circuit \<Rightarrow> sel_circuit \<Rightarrow> sel_error + sel_circuit" where
  "merge_parties cst sst =
     (if sc_nvals cst \<noteq> sc_nvals sst \<or> map fst (ins cst) \<noteq> map fst (ins sst) then Inl BackendError
      else Inr (cst\<lparr>ins := map2 (\<lambda>(k, c) (_, s). (k, \<lparr>client_in = client_in c, server_in = server_in s\<rparr>))
                              (ins cst) (ins sst)\<rparr>))"

subsection \<open>Well-formed joint inputs\<close>

text \<open>
  A share of field \<open>f\<close> on \<open>n\<close> lanes: one value and one flag per lane, and a Hamming
  weight per lane exactly for the \<open>DICE\<close> fields.  The joint state is well formed
  when every configured field has both real shares of that shape.
\<close>

definition lane_share_ok :: "nat \<Rightarrow> ml_field \<Rightarrow> value_share \<Rightarrow> bool" where
  "lane_share_ok n f vs \<longleftrightarrow>
     length (vs_val vs) = n \<and> length (vs_delta vs) = n \<and>
     (case vs_hw vs of Some h \<Rightarrow> length h = n | None \<Rightarrow> comparator f \<noteq> DICE)"

definition joint_ok :: "sel_circuit \<Rightarrow> bool" where
  "joint_ok st \<longleftrightarrow>
     list_all (\<lambda>(i, f). case map_of (ins st) i of
                         None \<Rightarrow> False
                       | Some s \<Rightarrow>
                           (case (client_in s, server_in s) of
                              (Real c, Real v) \<Rightarrow> lane_share_ok (sc_nvals st) f c \<and> lane_share_ok (sc_nvals st) f v
                            | _ \<Rightarrow> False))
       (cfg_fields (circ_cfg st))"

subsection \<open>Every step succeeds on well-formed inputs\<close>

lemma joint_ok_shares:
  assumes "joint_ok st" and "(i, f) \<in> set (cfg_fields (circ_cfg st))"
  shows "\<exists>c v. client_share st i = Inr c \<and> server_share st i = Inr v \<and>
           lane_share_ok (sc_nvals st) f c \<and> lane_share_ok (sc_nvals st) f v"
  using assms
  by (auto simp: joint_ok_def list_all_iff client_share_def server_share_def real_share_def
           split: option.splits party_share.splits)

lemma field_weight_Inr:
  assumes ok: "joint_ok st" and d: "distinct (map fst (cfg_fields (circ_cfg st)))"
    and l: "map_of (cfg_fields (circ_cfg st)) il = Some fl"
    and r: "map_of (cfg_fields (circ_cfg st)) ir = Some fr"
    and "comparator fl = comparator fr" and "bitsize fl = bitsize fr"
  shows "\<exists>fws. field_weight st il ir = Inr fws"
proof -
  obtain c v where c: "client_share st il = Inr c" "lane_share_ok (sc_nvals st) fl c"
    using joint_ok_shares [OF ok map_of_SomeD [OF l]] by blast
  obtain c' v' where v: "server_share st ir = Inr v'" "lane_share_ok (sc_nvals st) fr v'"
    using joint_ok_shares [OF ok map_of_SomeD [OF r]] by blast
  have hw: "comparator fl = DICE \<Longrightarrow> \<exists>h h'. vs_hw c = Some h \<and> vs_hw v' = Some h'"
    using c(2) v(2) assms(5) by (auto simp: lane_share_ok_def split: option.splits)
  show ?thesis
  proof (cases "comparator fl = DICE")
    case True
    with hw obtain h h' where "vs_hw c = Some h" "vs_hw v' = Some h'" by blast
    with True assms(5,6) l r c(1) v(1) show ?thesis
      by (simp add: field_weight_def map_at_def dice_lanes_def Let_def)
  next
    case False
    with assms(5,6) l r c(1) v(1) show ?thesis
      by (simp add: field_weight_def map_at_def Let_def)
  qed
qed

lemma best_group_weight_Inr:
  assumes ok: "joint_ok st" and d: "distinct (map fst (cfg_fields (circ_cfg st)))"
    and f0: "map_of (cfg_fields (circ_cfg st)) (hd g) = Some f0"
    and g: "group_fields_ok (cfg_fields (circ_cfg st)) f0 g"
  shows "\<exists>gw. best_group_weight st g = Inr gw"
proof -
  let ?fs = "cfg_fields (circ_cfg st)"
  have field: "\<exists>f. map_of ?fs x = Some f \<and> comparator f = comparator f0 \<and> bitsize f = bitsize f0"
    if "x \<in> set g" for x
    using g that by (auto simp: group_fields_ok_def split: option.splits)
  have pw: "\<exists>q. perm_weight st g p = Inr q" if "p \<in> set (perm_loop g)" for p
  proof -
    have sp: "set p = set g" using perm_loop_mset [OF that] by (metis set_mset_mset)
    have "\<exists>fws. (\<lambda>(il, ir). field_weight st il ir) x = Inr fws" if "x \<in> set (zip g p)" for x
    proof -
      obtain il ir where x: "x = (il, ir)" by fastforce
      with that have "il \<in> set g" "ir \<in> set g" using sp by (auto dest: set_zip_leftD set_zip_rightD)
      then obtain fl fr where "map_of ?fs il = Some fl" "map_of ?fs ir = Some fr"
        "comparator fl = comparator fr" "bitsize fl = bitsize fr"
        using field by metis
      then show ?thesis using field_weight_Inr [OF ok d] x by simp
    qed
    then obtain fws where "map_sum (\<lambda>(il, ir). field_weight st il ir) (zip g p) = Inr fws"
      using map_sum_Inr_ex by blast
    then show ?thesis by (simp add: perm_weight_def)
  qed
  then obtain pws where pws: "map_sum (perm_weight st g) (perm_loop g) = Inr pws"
    using map_sum_Inr_ex [of "perm_loop g" "perm_weight st g"] by blast
  then have "pws \<noteq> []" using map_sum_Inr_length [OF pws] perm_loop_ne [of g] by auto
  then have lane: "\<exists>q. (case max_quotient (map (\<lambda>q. q ! j) pws) of None \<Rightarrow> Inl Undefined | Some q \<Rightarrow> Inr q) = Inr q"
    for j using max_quotient_Some [of "map (\<lambda>q. q ! j) pws"] by auto
  have "\<exists>qs. map_sum (\<lambda>j. case max_quotient (map (\<lambda>q. q ! j) pws) of
        None \<Rightarrow> Inl Undefined | Some q \<Rightarrow> Inr q) [0..<sc_nvals st] = Inr qs"
    by (rule map_sum_Inr_ex) (rule lane)
  then obtain qs where "map_sum (\<lambda>j. case max_quotient (map (\<lambda>q. q ! j) pws) of
        None \<Rightarrow> Inl Undefined | Some q \<Rightarrow> Inr q) [0..<sc_nvals st] = Inr qs" ..
  with pws show ?thesis by (simp add: best_group_weight_def)
qed

lemma erase_group_Inr:
  "distinct grp \<Longrightarrow> set grp \<subseteq> set nx \<Longrightarrow>
   erase_group grp nx = Inr (filter (\<lambda>i. i \<notin> set grp) nx)"
proof (induction grp arbitrary: nx)
  case Nil
  then show ?case by (simp add: erase_group_def)
next
  case (Cons g gs)
  then have g: "g \<in> set nx" and gs: "set gs \<subseteq> set (removeAll g nx)" and d: "distinct gs" by auto
  have "erase_group (g # gs) nx = erase_group gs (removeAll g nx)"
    using g by (simp add: erase_group_def)
  also have "\<dots> = Inr (filter (\<lambda>i. i \<notin> set gs) (removeAll g nx))" by (rule Cons.IH [OF d gs])
  also have "filter (\<lambda>i. i \<notin> set gs) (removeAll g nx) = filter (\<lambda>i. i \<notin> set (g # gs)) nx"
    by (simp add: removeAll_filter_not_eq filter_filter) (rule filter_cong, auto)
  finally show ?case .
qed

lemma fold_group_step_Inr:
  "distinct (concat gs) \<Longrightarrow> (\<forall>g\<in>set gs. set g \<subseteq> set nx) \<Longrightarrow>
   (\<forall>g\<in>set gs. \<exists>gw. best_group_weight st g = Inr gw) \<Longrightarrow>
   \<exists>gws. fold_sum (group_step st) gs (acc, nx) = Inr (gws, filter (\<lambda>i. i \<notin> set (concat gs)) nx)"
proof (induction gs arbitrary: acc nx)
  case Nil
  then show ?case by simp
next
  case (Cons g gs)
  obtain gw where gw: "best_group_weight st g = Inr gw" using Cons.prems(3) by auto
  have e: "erase_group g nx = Inr (filter (\<lambda>i. i \<notin> set g) nx)"
    using Cons.prems(1,2) by (intro erase_group_Inr) auto
  let ?nx = "filter (\<lambda>i. i \<notin> set g) nx"
  have sub: "\<forall>g'\<in>set gs. set g' \<subseteq> set ?nx"
    using Cons.prems(1,2) by fastforce
  obtain gws where "fold_sum (group_step st) gs (acc @ [gw], ?nx) =
      Inr (gws, filter (\<lambda>i. i \<notin> set (concat gs)) ?nx)"
    using Cons.IH [of ?nx "acc @ [gw]"] Cons.prems(1,3) sub by auto
  moreover have "filter (\<lambda>i. i \<notin> set (concat gs)) ?nx = filter (\<lambda>i. i \<notin> set (concat (g # gs))) nx"
    by (simp add: filter_filter conj_commute)
  moreover have "group_step st (acc, nx) g = Inr (acc @ [gw], ?nx)"
    using gw e by (simp add: group_step_def)
  ultimately show ?case by simp
qed

lemma length_sum_lanes [simp]: "length (sum_lanes n fws) = n"
  by (simp add: sum_lanes_def)

theorem build_circuit_total:
  assumes ok: "joint_ok st" and d: "distinct (map fst (cfg_fields (circ_cfg st)))"
    and gs: "groups_ok (cfg_fields (circ_cfg st)) (exchange_groups (circ_cfg st))"
    and n: "0 < sc_nvals st" and idx: "const_idx st \<noteq> []"
  shows "\<exists>r. build_circuit st = Inr r"
proof -
  let ?fs = "cfg_fields (circ_cfg st)" and ?gs = "exchange_groups (circ_cfg st)"
  have dc: "distinct (concat ?gs)" using gs by (simp add: groups_ok_def)
  have grp: "g \<noteq> [] \<and> (\<exists>f0. map_of ?fs (hd g) = Some f0 \<and> group_fields_ok ?fs f0 g)"
    if "g \<in> set ?gs" for g
    using gs that by (auto simp: groups_ok_def split: option.splits)
  have sub: "\<forall>g\<in>set ?gs. set g \<subseteq> set (map fst ?fs)"
  proof
    fix g assume "g \<in> set ?gs"
    with grp obtain f0 where "group_fields_ok ?fs f0 g" by blast
    then show "set g \<subseteq> set (map fst ?fs)"
      by (fastforce simp: group_fields_ok_def dest: map_of_Some_key split: option.splits)
  qed
  have bgw: "\<forall>g\<in>set ?gs. \<exists>gw. best_group_weight st g = Inr gw"
    using grp best_group_weight_Inr [OF ok d] by blast
  from fold_group_step_Inr [OF dc sub bgw, of "[]"] obtain gws where fold:
    "fold_sum (group_step st) ?gs ([], map fst ?fs) =
      Inr (gws, filter (\<lambda>i. i \<notin> set (concat ?gs)) (map fst ?fs))" ..
  let ?nx = "filter (\<lambda>i. i \<notin> set (concat ?gs)) (map fst ?fs)"
  have fwi: "\<exists>fws. field_weight st i i = Inr fws" if "i \<in> set ?nx" for i
  proof -
    have "i \<in> set (map fst ?fs)" using that by simp
    then obtain f where f: "map_of ?fs i = Some f" by (blast dest: key_map_of_Some)
    show ?thesis by (rule field_weight_Inr [OF ok d f f refl refl])
  qed
  have "\<exists>rws. map_sum (\<lambda>i. field_weight st i i) ?nx = Inr rws"
    by (rule map_sum_Inr_ex) (rule fwi)
  then obtain rws where rws: "map_sum (\<lambda>i. field_weight st i i) ?nx = Inr rws" ..
  have ls: "link_scores st = Inr (sum_lanes (sc_nvals st) (gws @ rws))"
    using fold rws by (simp add: link_scores_def)
  have "zip (sum_lanes (sc_nvals st) (gws @ rws)) (const_idx st) \<noteq> []"
  proof -
    have "sum_lanes (sc_nvals st) (gws @ rws) \<noteq> []"
      using n by (simp add: sum_lanes_def)
    with idx show ?thesis by (simp add: zip_eq_Nil_iff)
  qed
  then have "\<exists>p. tournament max_select (zip (sum_lanes (sc_nvals st) (gws @ rws)) (const_idx st)) = Some p"
    by (rule tournament_Some)
  then obtain p where "split_select_target (sum_lanes (sc_nvals st) (gws @ rws)) (const_idx st) = Some p"
    by (auto simp: split_select_target_def)
  then show ?thesis using ls by (cases p) (simp add: build_circuit_def)
qed

lemma lane_share_ok_client: "lane_share_ok n f (client_value_share n cfg f e)"
  by (simp add: lane_share_ok_def client_value_share_def Let_def)

lemma lane_share_ok_server: "n \<le> length es \<Longrightarrow> lane_share_ok n f (server_value_share n cfg f es)"
  by (simp add: lane_share_ok_def server_value_share_def Let_def min_def)

lemma set_both_inputs_joint_ok:
  assumes d: "distinct (map fst (cfg_fields (circ_cfg st)))"
    and keys: "map fst (ins st) = map fst (cfg_fields (circ_cfg st))"
    and r: "set_both_inputs st in_client in_server = Inr st'"
  shows "joint_ok st' \<and> const_idx st' = [0..<sc_nvals st'] \<and> 0 < sc_nvals st' \<and>
         circ_cfg st' = circ_cfg st \<and> map fst (ins st') = map fst (ins st)"
proof -
  let ?fs = "cfg_fields (circ_cfg st)" and ?n = "nvals32 (client_nvals in_client)"
  from r set_both_inputs_Inr [OF d] have n: "0 < ?n"
    and sok: "server_input_ok ?fs in_server ?n"
    and st': "st' = (set_constants st ?n)\<lparr>ins :=
        map (\<lambda>(k, s). (k, case map_of ?fs k of
               Some f \<Rightarrow> s\<lparr>client_in := Real (client_value_share ?n (circ_cfg st) f
                                  (the (map_of (client_record in_client) k))),
                         server_in := Real (server_value_share ?n (circ_cfg st) f
                                  (the (map_of (database in_server) k)))\<rparr>
             | None \<Rightarrow> s)) (ins st),
        is_input_set := True\<rparr>"
    by simp_all
  have "case map_of (ins st') i of None \<Rightarrow> False
          | Some s \<Rightarrow> (case (client_in s, server_in s) of
                          (Real c, Real v) \<Rightarrow> lane_share_ok (sc_nvals st') f c \<and> lane_share_ok (sc_nvals st') f v
                        | _ \<Rightarrow> False)"
    if fi: "(i, f) \<in> set ?fs" for i f
  proof -
    have mf: "map_of ?fs i = Some f" using d fi by (rule map_of_is_SomeI)
    obtain s0 where s0: "map_of (ins st) i = Some s0"
      using key_map_of_Some [of i "ins st"] fi keys by (metis image_eqI fst_conv set_map)
    obtain es where es: "map_of (database in_server) i = Some es" "?n \<le> length es"
      using sok fi by (auto simp: server_input_ok_def list_all_iff split: option.splits)
    show ?thesis
      using st' mf s0 es(2) by (simp add: map_of_map_case lane_share_ok_client lane_share_ok_server es(1))
  qed
  then have "joint_ok st'" using st' by (auto simp: joint_ok_def list_all_iff)
  then show ?thesis using st' n by (auto simp: set_constants_idx split: prod.splits)
qed

lemma set_both_inputs_build_total:
  assumes d: "distinct (map fst (cfg_fields (circ_cfg st)))"
    and k: "map fst (ins st) = map fst (cfg_fields (circ_cfg st))"
    and g: "groups_ok (cfg_fields (circ_cfg st)) (exchange_groups (circ_cfg st))"
    and r: "set_both_inputs st in_client in_server = Inr st'"
  shows "\<exists>res. build_circuit st' = Inr res"
proof -
  from set_both_inputs_joint_ok [OF d k r] have ok: "joint_ok st'"
    and idx: "const_idx st' = [0..<sc_nvals st']" and n: "0 < sc_nvals st'"
    and cc: "circ_cfg st' = circ_cfg st"
    by simp_all
  show ?thesis
  proof (rule build_circuit_total [OF ok])
    show "distinct (map fst (cfg_fields (circ_cfg st')))" using d cc by simp
    show "groups_ok (cfg_fields (circ_cfg st')) (exchange_groups (circ_cfg st'))" using g cc by simp
    show "0 < sc_nvals st'" by (fact n)
    show "const_idx st' \<noteq> []" using idx n by simp
  qed
qed

text \<open>
  Claim C1: On a configuration the constructor accepted (with distinct field names), once
  \<open>set_both_inputs\<close> has accepted both inputs, \<open>build_circuit\<close> raises no exception: every
  field lookup, comparator and bitsize check, share access and group step succeeds.
\<close>

theorem both_inputs_build_total:
  assumes cfg: "make_epilink_config fs gs t tt mm bl = Inr cfg"
    and d: "distinct (map fst fs)"
    and r: "set_both_inputs (make_sel_circuit cfg) in_client in_server = Inr st"
  shows "\<exists>res. build_circuit st = Inr res"
proof (rule set_both_inputs_build_total [OF _ _ _ r])
  have c: "cfg_fields cfg = fs" "exchange_groups cfg = gs" and g: "groups_ok fs gs"
    using cfg by (simp_all add: make_epilink_config_Inr Let_def)
  show "distinct (map fst (cfg_fields (circ_cfg (make_sel_circuit cfg))))"
    using d c by (simp add: make_sel_circuit_def)
  show "map fst (ins (make_sel_circuit cfg)) = map fst (cfg_fields (circ_cfg (make_sel_circuit cfg)))"
    using make_sel_circuit_keys [of cfg] by (simp add: make_sel_circuit_def)
  show "groups_ok (cfg_fields (circ_cfg (make_sel_circuit cfg))) (exchange_groups (circ_cfg (make_sel_circuit cfg)))"
    using g c by (simp add: make_sel_circuit_def)
qed

subsection \<open>The arg-max over the lanes\<close>

lemma split_select_target_head:
  assumes "qs \<noteq> []" and "num (hd qs) = 0" and "den (hd qs) = 0"
  shows "split_select_target qs [0..<length qs] = Some (hd qs, 0)"
proof -
  obtain q qs' where qs: "qs = q # qs'" using assms(1) by (cases qs) auto
  have z: "zip qs [0..<length qs] = (q, 0) # zip qs' [1..<Suc (length qs')]"
    using qs by (simp add: upt_conv_Cons del: upt_Suc)
  have keep: "max_select (q, 0) b = (q, 0)" for b :: "arith_quotient \<times> nat"
    using assms(2,3) qs by (simp add: max_select_def quot_less_zero)
  have "tournament max_select (zip qs [0..<length qs]) = Some (q, 0)"
    using tournament_keep_head [of max_select "(q, 0)", OF keep] z by simp
  then show ?thesis using qs by (simp add: split_select_target_def)
qed

text \<open>
  Claim C3: When every lane's denominator is positive and no cross product overflows 32 bits, the
  index \<open>build_circuit\<close> returns is the lowest lane of maximal score \<open>N/D\<close>, and the
  debug outputs are that lane's numerator and denominator.
\<close>

theorem build_circuit_first_max:
  assumes "link_scores st = Inr qs" and "const_idx st = [0..<length qs]" and "qs \<noteq> []"
    and "\<forall>a\<in>set qs. 0 < unat (den a)"
    and "\<forall>a\<in>set qs. \<forall>b\<in>set qs. unat (num a) * unat (den b) < 2 ^ 32"
  shows "\<exists>r. build_circuit st = Inr r \<and> res_index r < length qs \<and>
           res_num r = num (qs ! res_index r) \<and> res_den r = den (qs ! res_index r) \<and>
           (\<forall>j < length qs. qrank (qs ! j) \<le> qrank (qs ! res_index r)) \<and>
           (\<forall>j < res_index r. qrank (qs ! j) < qrank (qs ! res_index r))"
proof -
  obtain i where i: "i < length qs" and s: "split_select_target qs [0..<length qs] = Some (qs ! i, i)"
    and le: "\<forall>j < length qs. qrank (qs ! j) \<le> qrank (qs ! i)"
    and lt: "\<forall>j < i. qrank (qs ! j) < qrank (qs ! i)"
    using split_select_target_first_max [OF assms(3-5)] by blast
  show ?thesis using assms(1,2) i s le lt by (simp add: build_circuit_def)
qed

text \<open>
  Claim C6: If lane 0 (the first database row) has the quotient \<open>0/0\<close>, because every field is
  empty on one side, \<open>build_circuit\<close> returns index 0 with no match and no tentative
  match, whatever the other rows score: the max selector never replaces \<open>0/0\<close>.
\<close>

theorem build_circuit_empty_lane0:
  assumes "link_scores st = Inr qs" and "const_idx st = [0..<length qs]" and "qs \<noteq> []"
    and "num (hd qs) = 0" and "den (hd qs) = 0"
  shows "build_circuit st =
           Inr \<lparr>res_index = 0, res_match = False, res_tmatch = False, res_num = 0, res_den = 0\<rparr>"
  using split_select_target_head [OF assms(3-5)] assms(1,2,4,5) by (simp add: build_circuit_def)

text \<open>
  Claim C13: When \<open>Tt <= T\<close> and \<open>T * D\<close> does not overflow 32 bits, a match is also a
  tentative match.
\<close>

theorem build_circuit_match_tmatch:
  assumes "build_circuit st = Inr r"
    and "const_tthreshold st \<le> const_threshold st"
    and "unat (const_threshold st) * unat (res_den r) < 2 ^ 32"
    and "res_match r"
  shows "res_tmatch r"
proof -
  obtain qs q idx where l: "link_scores st = Inr qs"
    and s: "split_select_target qs (const_idx st) = Some (q, idx)"
    and r: "r = \<lparr>res_index = idx, res_match = const_threshold st * den q < num q,
                 res_tmatch = const_tthreshold st * den q < num q, res_num = num q, res_den = den q\<rparr>"
    using assms(1) by (auto simp: build_circuit_def split: sum.splits option.splits)
  have tt: "unat (const_tthreshold st) \<le> unat (const_threshold st)"
    using assms(2) by (simp add: word_le_nat_alt)
  have ov: "unat (const_threshold st) * unat (den q) < 2 ^ 32" using assms(3) r by simp
  have ov': "unat (const_tthreshold st) * unat (den q) < 2 ^ 32"
    using ov tt mult_le_mono1 [OF tt, of "unat (den q)"] by linarith
  have "unat (const_tthreshold st * den q) \<le> unat (const_threshold st * den q)"
    using unat_mult_circ [OF ov] unat_mult_circ [OF ov'] tt by (simp add: mult_le_mono1)
  then have "const_tthreshold st * den q \<le> const_threshold st * den q"
    by (simp add: word_le_nat_alt)
  moreover have "const_threshold st * den q < num q" using assms(4) r by simp
  ultimately show ?thesis using r by simp
qed

end
