(* ===== verification/Engine.thy ===== *)
theory Engine
  imports Linkage
begin

text \<open>
  The engine facade \<open>SecureEpilinker\<close> (component C8, \<open>secure_epilinker.cpp\<close>,
  public interface) and \<open>LocalServer\<close> (\<open>localserver.cpp\<close>).  The engine owns the
  link configuration \<open>epicfg\<close>, the circuit builder \<open>selc\<close> and the two state flags
  \<open>is_built\<close> and \<open>is_setup\<close>; the backend party itself is not modelled beyond its
  execution of the circuit.

  A run in production is two engines, one per party: the client calls
  \<open>run_as_client\<close>, the server \<open>run_as_server\<close>, and the backend executes the one
  circuit on both parties' inputs (\<open>run_joint\<close>).  The debug build runs both sides in
  one engine (\<open>run_as_both\<close>).  The operations are collected in a datatype with a step
  function, and the states an engine reaches from its construction form an inductive
  set on which the state invariant is proved by rule induction.
\<close>

record sel_engine =
  epicfg :: epilink_config
  selc :: sel_circuit
  is_built :: bool
  is_setup :: bool

text \<open>\<open>SecureEpilinker::Result\<close> (with the debug outputs).\<close>

record sel_result =
  r_index :: circ_unit
  r_match :: bool
  r_tmatch :: bool
  r_num :: circ_unit
  r_den :: circ_unit

text \<open>The constructor: \<open>selc\<close> is \<open>make_unique<SELCircuit>(epicfg, ...)\<close>.\<close>

definition make_engine :: "epilink_config \<Rightarrow> sel_engine" where
  "make_engine cfg = \<lparr>epicfg = cfg, selc = make_sel_circuit cfg, is_built = False, is_setup = False\<rparr>"

text \<open>\<open>build_circuit(nvals)\<close>: only sets the flag (the argument is ignored).\<close>

definition engine_build :: "sel_engine \<Rightarrow> sel_engine" where
  "engine_build e = e\<lparr>is_built := True\<rparr>"

definition run_setup_phase :: "sel_engine \<Rightarrow> sel_error + sel_engine" where
  "run_setup_phase e = (if \<not> is_built e then Inl NotBuilt else Inr (e\<lparr>is_setup := True\<rparr>))"

text \<open>The preamble of every \<open>run_as_*\<close>: a warning and the setup phase if it has not run.\<close>

definition auto_setup :: "sel_engine \<Rightarrow> sel_error + sel_engine" where
  "auto_setup e = (if \<not> is_setup e then run_setup_phase e else Inr e)"

text \<open>
  \<open>run_circuit()\<close> after the backend executed the circuit: \<open>is_setup\<close> is cleared, the
  index is read as \<open>CircUnit\<close>, the denominator is shifted left by \<open>dice_prec\<close>.
\<close>

definition result_of :: "epilink_config \<Rightarrow> result_shares \<Rightarrow> sel_result" where
  "result_of cfg r =
     \<lparr>r_index = of_nat (res_index r), r_match = res_match r, r_tmatch = res_tmatch r,
      r_num = res_num r, r_den = push_bit (unat (dice_prec cfg)) (res_den r)\<rparr>"

text \<open>
  \<open>run_as_client\<close> on the client engine and \<open>run_as_server\<close> on the server engine,
  executed together: the setup phases, the input setters of the two builders, the
  joint circuit, and the result both parties read.
\<close>

definition run_joint ::
  "sel_engine \<Rightarrow> sel_engine \<Rightarrow> epilink_client_input \<Rightarrow> epilink_server_input
   \<Rightarrow> sel_error + sel_engine \<times> sel_engine \<times> sel_result" where
  "run_joint ce se in_client in_server =
     bind_sum (auto_setup ce) (\<lambda>ce1.
     bind_sum (auto_setup se) (\<lambda>se1.
     bind_sum (set_client_input (selc ce1) in_client) (\<lambda>cst.
     bind_sum (set_server_input (selc se1) in_server) (\<lambda>sst.
     bind_sum (merge_parties cst sst) (\<lambda>jst.
     bind_sum (build_circuit jst) (\<lambda>res.
       Inr (ce1\<lparr>selc := cst, is_setup := False\<rparr>, se1\<lparr>selc := sst, is_setup := False\<rparr>,
            result_of (epicfg ce) res)))))))"

text \<open>\<open>run_as_both(in_client, in_server)\<close> (debug builds).\<close>

definition run_as_both ::
  "sel_engine \<Rightarrow> epilink_client_input \<Rightarrow> epilink_server_input \<Rightarrow> sel_error + sel_engine \<times> sel_result" where
  "run_as_both e in_client in_server =
     bind_sum (auto_setup e) (\<lambda>e1.
     bind_sum (set_both_inputs (selc e1) in_client in_server) (\<lambda>st.
     bind_sum (build_circuit st) (\<lambda>res.
       Inr (e1\<lparr>selc := st, is_setup := False\<rparr>, result_of (epicfg e) res))))"

text \<open>\<open>reset()\<close>: the backend is reset and both flags cleared; the builder is kept.\<close>

definition engine_reset :: "sel_engine \<Rightarrow> sel_engine" where
  "engine_reset e = e\<lparr>is_built := False, is_setup := False\<rparr>"

subsection \<open>The engine as a state machine\<close>

datatype engine_op =
    OpBuild
  | OpSetup
  | OpRunBoth epilink_client_input epilink_server_input
  | OpReset

fun engine_step :: "engine_op \<Rightarrow> sel_engine \<Rightarrow> sel_error + sel_engine" where
  "engine_step OpBuild e = Inr (engine_build e)"
| "engine_step OpSetup e = run_setup_phase e"
| "engine_step (OpRunBoth ci si) e = bind_sum (run_as_both e ci si) (\<lambda>(e', _). Inr e')"
| "engine_step OpReset e = Inr (engine_reset e)"

text \<open>The states an engine reaches from its construction by successful operations.\<close>

inductive reachable :: "epilink_config \<Rightarrow> sel_engine \<Rightarrow> bool" for cfg where
  init: "reachable cfg (make_engine cfg)"
| step: "reachable cfg e \<Longrightarrow> engine_step op e = Inr e' \<Longrightarrow> reachable cfg e'"

text \<open>
  The state invariant: setup implies built; the configuration never changes and is the
  builder's; the builder's share map keeps the configuration's keys.
\<close>

definition engine_inv :: "epilink_config \<Rightarrow> sel_engine \<Rightarrow> bool" where
  "engine_inv cfg e \<longleftrightarrow>
     (is_setup e \<longrightarrow> is_built e) \<and> epicfg e = cfg \<and> circ_cfg (selc e) = cfg \<and>
     map fst (ins (selc e)) = map fst (cfg_fields cfg)"

text \<open>The frame of the input setters: configuration, share-map keys and lane count.\<close>

definition same_frame :: "sel_circuit \<Rightarrow> sel_circuit \<Rightarrow> bool" where
  "same_frame st st' \<longleftrightarrow>
     circ_cfg st' = circ_cfg st \<and> map fst (ins st') = map fst (ins st) \<and> sc_nvals st' = sc_nvals st"

subsection \<open>\<open>LocalServer\<close>\<close>

record local_server =
  ls_remote_id :: string
  ls_client_ip :: string
  ls_client_port :: nat
  ls_data :: "(field_name \<times> vfield_entry) list option"
  ls_engine :: sel_engine

text \<open>
  \<open>LocalServer::run_server()\<close>, with the client's engine run by the remote party: the
  size of the first column (undefined on an empty database or before any data), the
  engine's \<open>build_circuit\<close> and \<open>run_setup_phase\<close>, \<open>run_as_server\<close> on
  \<open>EpilinkServerInput(data)\<close>, then \<open>reset\<close>.
\<close>

definition run_server ::
  "local_server \<Rightarrow> sel_engine \<Rightarrow> epilink_client_input
   \<Rightarrow> sel_error + local_server \<times> sel_engine \<times> sel_result" where
  "run_server ls ce in_client =
     (case ls_data ls of
        None \<Rightarrow> Inl Undefined
      | Some data \<Rightarrow>
          (case data of
             [] \<Rightarrow> Inl Undefined
           | _ \<Rightarrow>
               bind_sum (run_setup_phase (engine_build (ls_engine ls))) (\<lambda>se.
               bind_sum (make_server_input data) (\<lambda>sin.
               bind_sum (run_joint ce se in_client sin) (\<lambda>(ce', se', res).
                 Inr (ls\<lparr>ls_engine := engine_reset se'\<rparr>, ce', res))))))"

text \<open>\<open>launch_comparison(data)\<close>: store the data, then \<open>run_server()\<close>.\<close>

definition launch_comparison ::
  "local_server \<Rightarrow> (field_name \<times> vfield_entry) list \<Rightarrow> sel_engine \<Rightarrow> epilink_client_input
   \<Rightarrow> sel_error + local_server \<times> sel_engine \<times> sel_result" where
  "launch_comparison ls data ce in_client = run_server (ls\<lparr>ls_data := Some data\<rparr>) ce in_client"

subsection \<open>The input setters keep the frame\<close>

lemma update_ins_keys [simp]: "map fst (ins (update_ins i g st)) = map fst (ins st)"
  by (induction "ins st" arbitrary: st) (auto simp: update_ins_def)

lemma same_frame_update [simp]: "same_frame st (update_ins i g s) = same_frame st s"
  by (simp add: same_frame_def)

lemma client_field_input_frame:
  "client_field_input s input fi = Inr s' \<Longrightarrow> s' = update_ins (fst fi) (\<lambda>x. x\<lparr>client_in :=
      Real (client_value_share (sc_nvals s) (circ_cfg s) (snd fi) (the (map_of (client_record input) (fst fi))))\<rparr>) s"
  by (auto simp: client_field_input_def map_at_def split: prod.splits option.splits if_splits)

lemma server_field_input_frame:
  "server_field_input s input fi = Inr s' \<Longrightarrow> s' = update_ins (fst fi) (\<lambda>x. x\<lparr>server_in :=
      Real (server_value_share (sc_nvals s) (circ_cfg s) (snd fi) (the (map_of (database input) (fst fi))))\<rparr>) s"
  by (auto simp: server_field_input_def map_at_def split: prod.splits option.splits if_splits)

lemma set_real_client_input_frame:
  "set_real_client_input st input = Inr st' \<Longrightarrow> same_frame st st'"
  unfolding set_real_client_input_def
  by (rule fold_sum_invariant [where P = "same_frame st"])
     (auto simp: same_frame_def dest: client_field_input_frame split: if_splits)

lemma set_real_server_input_frame:
  "set_real_server_input st input = Inr st' \<Longrightarrow> same_frame st st'"
  unfolding set_real_server_input_def
  by (rule fold_sum_invariant [where P = "same_frame st"])
     (auto simp: same_frame_def dest: server_field_input_frame split: if_splits)

lemma fold_update_frame:
  "same_frame st (fold (\<lambda>(i, _) s. update_ins i (g i) s) fs st)"
  by (induction fs arbitrary: st) (auto simp: same_frame_def)

lemma set_dummy_frame:
  "set_dummy_client_input st = Inr st' \<Longrightarrow> same_frame st st'"
  "set_dummy_server_input st = Inr st' \<Longrightarrow> same_frame st st'"
  by (auto simp: set_dummy_client_input_def set_dummy_server_input_def split: if_splits
      intro: fold_update_frame [where g = "\<lambda>_ x. x\<lparr>client_in := Dummy\<rparr>"]
             fold_update_frame [where g = "\<lambda>_ x. x\<lparr>server_in := Dummy\<rparr>"])

lemma set_inputs_frame:
  "set_client_input st ci = Inr st' \<Longrightarrow> circ_cfg st' = circ_cfg st \<and> map fst (ins st') = map fst (ins st)"
  "set_server_input st si = Inr st' \<Longrightarrow> circ_cfg st' = circ_cfg st \<and> map fst (ins st') = map fst (ins st)"
  "set_both_inputs st ci si = Inr st' \<Longrightarrow> circ_cfg st' = circ_cfg st \<and> map fst (ins st') = map fst (ins st)"
  by (auto simp: set_client_input_def set_server_input_def set_both_inputs_def same_frame_def
      split: sum.splits dest!: set_real_client_input_frame set_real_server_input_frame set_dummy_frame)

lemma engine_step_inv:
  "engine_inv cfg e \<Longrightarrow> engine_step op e = Inr e' \<Longrightarrow> engine_inv cfg e'"
proof (cases op)
  case (OpRunBoth ci si)
  assume inv: "engine_inv cfg e" and s: "engine_step op e = Inr e'"
  with OpRunBoth obtain e1 st r where a: "auto_setup e = Inr e1"
    and b: "set_both_inputs (selc e1) ci si = Inr st" and e': "e' = e1\<lparr>selc := st, is_setup := False\<rparr>"
    by (auto simp: run_as_both_def bind_sum_Inr)
  have "selc e1 = selc e \<and> epicfg e1 = epicfg e"
    using a by (auto simp: auto_setup_def run_setup_phase_def split: if_splits)
  with inv set_inputs_frame(3) [OF b] e' show ?thesis by (simp add: engine_inv_def)
qed (auto simp: engine_inv_def engine_build_def run_setup_phase_def engine_reset_def split: if_splits)

lemma engine_inv_make_engine: "engine_inv cfg (make_engine cfg)"
  using make_sel_circuit_keys [of cfg] by (simp add: engine_inv_def make_engine_def make_sel_circuit_def)

text \<open>
  Claim C5: In every state an engine reaches from its construction, \<open>is_setup\<close> implies
  \<open>is_built\<close>, the configuration is the one it was constructed with and the builder's,
  and the builder's share map has the configuration's field names as keys.
\<close>

theorem reachable_engine_inv: "reachable cfg e \<Longrightarrow> engine_inv cfg e"
proof (induction rule: reachable.induct)
  case init
  show ?case by (rule engine_inv_make_engine)
next
  case (step e op e')
  from step.IH step.hyps(2) show ?case by (rule engine_step_inv)
qed

subsection \<open>The two-party run computes the debug run\<close>

lemma fold_sum_server_err:
  "sc_nvals s1 = sc_nvals s2 \<Longrightarrow>
   fold_sum (\<lambda>s fi. server_field_input s input fi) fs s1 = Inl x \<longleftrightarrow>
   fold_sum (\<lambda>s fi. server_field_input s input fi) fs s2 = Inl x"
proof (induction fs arbitrary: s1 s2)
  case Nil
  then show ?case by simp
next
  case (Cons fi fs)
  obtain i f where fi: "fi = (i, f)" by fastforce
  show ?case
  proof (cases "server_field_input s1 input fi")
    case (Inl e)
    then have "server_field_input s2 input fi = Inl e"
      using Cons.prems by (auto simp: fi server_field_input_def map_at_def split: option.splits if_splits)
    with Inl show ?thesis by simp
  next
    case (Inr t1)
    then obtain t2 where t2: "server_field_input s2 input fi = Inr t2"
      using Cons.prems by (auto simp: fi server_field_input_def map_at_def split: option.splits if_splits)
    have "sc_nvals t1 = sc_nvals t2"
      using Cons.prems server_field_input_frame [OF Inr] server_field_input_frame [OF t2] by simp
    then have "fold_sum (\<lambda>s fi. server_field_input s input fi) fs t1 = Inl x \<longleftrightarrow>
               fold_sum (\<lambda>s fi. server_field_input s input fi) fs t2 = Inl x"
      by (rule Cons.IH)
    with Inr t2 show ?thesis by simp
  qed
qed

lemma set_real_server_input_err:
  "sc_nvals s1 = sc_nvals s2 \<Longrightarrow> circ_cfg s1 = circ_cfg s2 \<Longrightarrow>
   set_real_server_input s1 input = Inl x \<longleftrightarrow> set_real_server_input s2 input = Inl x"
proof -
  assume n: "sc_nvals s1 = sc_nvals s2" and c: "circ_cfg s1 = circ_cfg s2"
  have "fold_sum (\<lambda>s fi. server_field_input s input fi) (cfg_fields (circ_cfg s2)) s1 = Inl x \<longleftrightarrow>
        fold_sum (\<lambda>s fi. server_field_input s input fi) (cfg_fields (circ_cfg s2)) s2 = Inl x"
    using n by (rule fold_sum_server_err)
  with n c show ?thesis by (simp add: set_real_server_input_def)
qed

lemma set_real_inputs_pos:
  "set_real_client_input st ci = Inr st' \<Longrightarrow> 0 < sc_nvals st'"
  "set_real_server_input st si = Inr st' \<Longrightarrow> 0 < sc_nvals st'"
proof -
  assume a: "set_real_client_input st ci = Inr st'"
  then have "sc_nvals st \<noteq> 0" by (cases "sc_nvals st = 0") (simp_all add: set_real_client_input_def)
  with set_real_client_input_frame [OF a] show "0 < sc_nvals st'" by (simp add: same_frame_def)
next
  assume a: "set_real_server_input st si = Inr st'"
  then have "sc_nvals st \<noteq> 0" by (cases "sc_nvals st = 0") (simp_all add: set_real_server_input_def)
  with set_real_server_input_frame [OF a] show "0 < sc_nvals st'" by (simp add: same_frame_def)
qed

lemma set_client_input_err:
  "set_client_input st ci = Inl x \<longleftrightarrow>
   set_real_client_input (set_constants st (nvals32 (client_nvals ci))) ci = Inl x"
proof (cases "set_real_client_input (set_constants st (nvals32 (client_nvals ci))) ci")
  case (Inr st1)
  then have "0 < sc_nvals st1" using set_real_inputs_pos(1) by blast
  then obtain st2 where st2: "set_dummy_server_input st1 = Inr st2"
    by (simp add: set_dummy_server_input_def)
  show ?thesis by (simp only: set_client_input_def Inr st2 sum.case) simp
next
  case (Inl e)
  show ?thesis by (simp only: set_client_input_def Inl sum.case)
qed

lemma set_server_input_err:
  "set_server_input st si = Inl x \<longleftrightarrow>
   set_real_server_input (set_constants st (nvals32 (server_nvals si))) si = Inl x"
proof (cases "set_real_server_input (set_constants st (nvals32 (server_nvals si))) si")
  case (Inr st1)
  then have "0 < sc_nvals st1" using set_real_inputs_pos(2) by blast
  then obtain st2 where st2: "set_dummy_client_input st1 = Inr st2"
    by (simp add: set_dummy_client_input_def)
  show ?thesis by (simp only: set_server_input_def Inr st2 sum.case) simp
next
  case (Inl e)
  show ?thesis by (simp only: set_server_input_def Inl sum.case)
qed

lemma map2_map_map: "map2 g (map A xs) (map B xs) = map (\<lambda>x. g (A x) (B x)) xs"
  by (induction xs) auto

lemma merge_parties_both:
  assumes d: "distinct (map fst (cfg_fields (circ_cfg st)))"
    and nv: "nvals32 (client_nvals ci) = nvals32 (server_nvals si)"
    and c: "set_client_input st ci = Inr cst" and s: "set_server_input st si = Inr sst"
    and b: "set_both_inputs st ci si = Inr stb"
  shows "merge_parties cst sst = Inr stb"
proof -
  let ?n = "nvals32 (client_nvals ci)" and ?fs = "cfg_fields (circ_cfg st)" and ?cfg = "circ_cfg st"
  let ?cv = "\<lambda>k f. Real (client_value_share ?n ?cfg f (the (map_of (client_record ci) k)))"
  let ?sv = "\<lambda>k f. Real (server_value_share ?n ?cfg f (the (map_of (database si) k)))"
  from c set_client_input_Inr [OF d] have cst: "cst = (set_constants st ?n)\<lparr>ins :=
      map (\<lambda>(k, s). (k, case map_of ?fs k of Some f \<Rightarrow> s\<lparr>client_in := ?cv k f, server_in := Dummy\<rparr>
                                         | None \<Rightarrow> s)) (ins st), is_input_set := True\<rparr>"
    by simp
  let ?m = "nvals32 (server_nvals si)"
  let ?sv' = "\<lambda>k f. Real (server_value_share ?m ?cfg f (the (map_of (database si) k)))"
  from s set_server_input_Inr [OF d] have sst': "sst = (set_constants st ?m)\<lparr>ins :=
      map (\<lambda>(k, s). (k, case map_of ?fs k of Some f \<Rightarrow> s\<lparr>server_in := ?sv' k f, client_in := Dummy\<rparr>
                                         | None \<Rightarrow> s)) (ins st), is_input_set := True\<rparr>"
    by (simp only:)
  then have sst: "sst = (set_constants st ?n)\<lparr>ins :=
      map (\<lambda>(k, s). (k, case map_of ?fs k of Some f \<Rightarrow> s\<lparr>server_in := ?sv k f, client_in := Dummy\<rparr>
                                         | None \<Rightarrow> s)) (ins st), is_input_set := True\<rparr>"
    by (simp only: nv)
  from b set_both_inputs_Inr [OF d] have stb: "stb = (set_constants st ?n)\<lparr>ins :=
      map (\<lambda>(k, s). (k, case map_of ?fs k of Some f \<Rightarrow> s\<lparr>client_in := ?cv k f, server_in := ?sv k f\<rparr>
                                         | None \<Rightarrow> s)) (ins st), is_input_set := True\<rparr>"
    by simp
  have "map2 (\<lambda>(k, c) (_, s). (k, \<lparr>client_in = client_in c, server_in = server_in s\<rparr>)) (ins cst) (ins sst) =
        ins stb"
    using cst sst stb
    by (auto simp: map2_map_map input_shares_eta input_shares_upd2 split: option.splits intro!: map_cong)
  moreover have "map fst (ins cst) = map fst (ins sst)" using cst sst by (simp add: comp_def split_def)
  ultimately show ?thesis using cst sst stb by (simp add: merge_parties_def)
qed

lemma map2_merge_keys:
  assumes "map fst xs = map fst ys" and "\<forall>k\<in>set (map fst xs). map_of ks k \<noteq> None"
  shows "map2 (\<lambda>(k, c) (_, s). (k, \<lparr>client_in = client_in c, server_in = server_in s\<rparr>))
           (map (\<lambda>(k, s). (k, case map_of ks k of Some f \<Rightarrow> s\<lparr>client_in := A k f, server_in := Dummy\<rparr>
                                              | None \<Rightarrow> s)) xs)
           (map (\<lambda>(k, s). (k, case map_of ks k of Some f \<Rightarrow> s\<lparr>server_in := B k f, client_in := Dummy\<rparr>
                                              | None \<Rightarrow> s)) ys) =
         map (\<lambda>(k, s). (k, case map_of ks k of Some f \<Rightarrow> s\<lparr>client_in := A k f, server_in := B k f\<rparr>
                                            | None \<Rightarrow> s)) xs"
  using assms
proof (induction xs arbitrary: ys)
  case Nil
  then show ?case by simp
next
  case (Cons x xs)
  then obtain y ys' where ys: "ys = y # ys'" and k: "fst y = fst x" and r: "map fst xs = map fst ys'"
    by (cases ys) auto
  from Cons.prems(2) obtain f where f: "map_of ks (fst x) = Some f" by auto
  have "\<forall>k\<in>set (map fst xs). map_of ks k \<noteq> None" using Cons.prems(2) by simp
  with Cons.IH [OF r] f k ys show ?case
    by (cases x, cases y) (simp add: input_shares_upd2)
qed

lemma merge_parties_two:
  assumes d: "distinct (map fst (cfg_fields (circ_cfg st1)))"
    and c: "circ_cfg st2 = circ_cfg st1"
    and k1: "map fst (ins st1) = map fst (cfg_fields (circ_cfg st1))"
    and k2: "map fst (ins st2) = map fst (cfg_fields (circ_cfg st1))"
    and nv: "nvals32 (client_nvals ci) = nvals32 (server_nvals si)"
    and cs: "set_client_input st1 ci = Inr cst" and ss: "set_server_input st2 si = Inr sst"
    and b: "set_both_inputs st1 ci si = Inr stb"
  shows "merge_parties cst sst = Inr stb"
proof -
  let ?n = "nvals32 (client_nvals ci)" and ?fs = "cfg_fields (circ_cfg st1)" and ?cfg = "circ_cfg st1"
  let ?cv = "\<lambda>k f. Real (client_value_share ?n ?cfg f (the (map_of (client_record ci) k)))"
  let ?sv = "\<lambda>k f. Real (server_value_share ?n ?cfg f (the (map_of (database si) k)))"
  have d2: "distinct (map fst (cfg_fields (circ_cfg st2)))" using d c by simp
  from cs set_client_input_Inr [OF d] have cst: "cst = (set_constants st1 ?n)\<lparr>ins :=
      map (\<lambda>(k, s). (k, case map_of ?fs k of Some f \<Rightarrow> s\<lparr>client_in := ?cv k f, server_in := Dummy\<rparr>
                                         | None \<Rightarrow> s)) (ins st1), is_input_set := True\<rparr>"
    by simp
  let ?m = "nvals32 (server_nvals si)" and ?fs2 = "cfg_fields (circ_cfg st2)"
  let ?sv2 = "\<lambda>k f. Real (server_value_share ?m (circ_cfg st2) f (the (map_of (database si) k)))"
  from ss set_server_input_Inr [OF d2] have sst0: "sst = (set_constants st2 ?m)\<lparr>ins :=
      map (\<lambda>(k, s). (k, case map_of ?fs2 k of Some f \<Rightarrow> s\<lparr>server_in := ?sv2 k f, client_in := Dummy\<rparr>
                                         | None \<Rightarrow> s)) (ins st2), is_input_set := True\<rparr>"
    by (simp only:)
  have sst: "sst = (set_constants st2 ?n)\<lparr>ins :=
      map (\<lambda>(k, s). (k, case map_of ?fs k of Some f \<Rightarrow> s\<lparr>server_in := ?sv k f, client_in := Dummy\<rparr>
                                         | None \<Rightarrow> s)) (ins st2), is_input_set := True\<rparr>"
    using sst0 unfolding c nv .
  from b set_both_inputs_Inr [OF d] have stb: "stb = (set_constants st1 ?n)\<lparr>ins :=
      map (\<lambda>(k, s). (k, case map_of ?fs k of Some f \<Rightarrow> s\<lparr>client_in := ?cv k f, server_in := ?sv k f\<rparr>
                                         | None \<Rightarrow> s)) (ins st1), is_input_set := True\<rparr>"
    by simp
  have all: "\<forall>k\<in>set (map fst (ins st1)). map_of ?fs k \<noteq> None"
    unfolding k1 by (auto simp: map_of_eq_None_iff)
  have "map2 (\<lambda>(k, c) (_, s). (k, \<lparr>client_in = client_in c, server_in = server_in s\<rparr>)) (ins cst) (ins sst) =
        ins stb"
    using map2_merge_keys [of "ins st1" "ins st2" ?fs ?cv ?sv] k1 k2 all cst sst stb by simp
  moreover have "map fst (ins cst) = map fst (ins sst)"
    using cst sst k1 k2 by (simp add: comp_def split_def)
  ultimately show ?thesis using cst sst stb by (simp add: merge_parties_def)
qed

lemma auto_setup_built:
  "is_built e \<Longrightarrow> \<exists>e1. auto_setup e = Inr e1 \<and> selc e1 = selc e \<and> epicfg e1 = epicfg e"
  by (auto simp: auto_setup_def run_setup_phase_def)

lemma run_joint_total:
  assumes g: "groups_ok (cfg_fields cfg) (exchange_groups cfg)" and d: "distinct (map fst (cfg_fields cfg))"
    and ice: "engine_inv cfg ce" and bce: "is_built ce"
    and ise: "engine_inv cfg se" and bse: "is_built se"
    and n: "0 < nvals32 (client_nvals ci)" and nv: "nvals32 (client_nvals ci) = nvals32 (server_nvals si)"
    and cok: "client_input_ok (cfg_fields cfg) ci"
    and sok: "server_input_ok (cfg_fields cfg) si (nvals32 (server_nvals si))"
  shows "\<exists>ce' se' r. run_joint ce se ci si = Inr (ce', se', r)"
proof -
  obtain ce1 where a1: "auto_setup ce = Inr ce1" and s1: "selc ce1 = selc ce"
    using auto_setup_built [OF bce] by blast
  obtain se1 where a2: "auto_setup se = Inr se1" and s2: "selc se1 = selc se"
    using auto_setup_built [OF bse] by blast
  let ?st1 = "selc ce" and ?st2 = "selc se"
  have c1: "circ_cfg ?st1 = cfg" and k1: "map fst (ins ?st1) = map fst (cfg_fields cfg)"
    using ice by (simp_all add: engine_inv_def)
  have c2: "circ_cfg ?st2 = cfg" and k2: "map fst (ins ?st2) = map fst (cfg_fields cfg)"
    using ise by (simp_all add: engine_inv_def)
  have d1: "distinct (map fst (cfg_fields (circ_cfg ?st1)))" using d c1 by simp
  have d2: "distinct (map fst (cfg_fields (circ_cfg ?st2)))" using d c2 by simp
  have "\<exists>cst. set_client_input ?st1 ci = Inr cst"
    using set_client_input_Inr [OF d1] n cok c1 by blast
  then obtain cst where cs: "set_client_input ?st1 ci = Inr cst" ..
  have "\<exists>sst. set_server_input ?st2 si = Inr sst"
    using set_server_input_Inr [OF d2] n nv sok c2 by auto
  then obtain sst where ss: "set_server_input ?st2 si = Inr sst" ..
  have "\<exists>stb. set_both_inputs ?st1 ci si = Inr stb"
    using set_both_inputs_Inr [OF d1] n nv cok sok c1 by auto
  then obtain stb where b: "set_both_inputs ?st1 ci si = Inr stb" ..
  have m: "merge_parties cst sst = Inr stb"
    by (rule merge_parties_two [OF d1 _ _ _ nv cs ss b]) (use c1 c2 k1 k2 in simp_all)
  obtain res where r: "build_circuit stb = Inr res"
    using set_both_inputs_build_total [OF d1 _ _ b] k1 c1 g by auto
  show ?thesis using a1 a2 s1 s2 cs ss m r by (simp add: run_joint_def)
qed

text \<open>
  Claim C4: The production run (client engine \<open>run_as_client\<close>, server engine
  \<open>run_as_server\<close>, the backend executing the joint circuit) returns the same result, or
  the same exception, as the debug \<open>run_as_both\<close> on one engine, when the two inputs
  agree on \<open>nvals\<close>.
\<close>

theorem run_joint_run_as_both:
  assumes d: "distinct (map fst (cfg_fields (circ_cfg (selc e))))"
    and nv: "nvals32 (client_nvals ci) = nvals32 (server_nvals si)"
  shows "(case run_joint e e ci si of Inl x \<Rightarrow> Inl x | Inr (_, _, r) \<Rightarrow> Inr r) =
         (case run_as_both e ci si of Inl x \<Rightarrow> Inl x | Inr (_, r) \<Rightarrow> Inr r)"
proof (cases "auto_setup e")
  case (Inl x)
  then show ?thesis by (simp add: run_joint_def run_as_both_def)
next
  case (Inr e1)
  have se: "selc e1 = selc e"
    using Inr by (auto simp: auto_setup_def run_setup_phase_def split: if_splits)
  let ?st = "selc e" and ?n = "nvals32 (client_nvals ci)"
  have d': "distinct (map fst (cfg_fields (circ_cfg ?st)))" by (fact d)
  show ?thesis
  proof (cases "set_real_client_input (set_constants ?st ?n) ci")
    case (Inl x)
    then have "set_client_input ?st ci = Inl x" by (simp add: set_client_input_err)
    moreover have "set_both_inputs ?st ci si = Inl x" using Inl by (simp add: set_both_inputs_def)
    ultimately show ?thesis using Inr se by (simp add: run_joint_def run_as_both_def)
  next
    case (Inr st1)
    then obtain cst where cst: "set_client_input ?st ci = Inr cst"
      using set_client_input_err [of ?st ci] by (cases "set_client_input ?st ci") auto
    have f1: "sc_nvals st1 = ?n \<and> circ_cfg st1 = circ_cfg ?st"
      using set_real_client_input_frame [OF Inr] by (simp add: same_frame_def)
    have serr: "set_server_input ?st si = Inl x \<longleftrightarrow> set_real_server_input st1 si = Inl x" for x
      using set_server_input_err [of ?st si x] set_real_server_input_err [of st1 "set_constants ?st (nvals32 (server_nvals si))" si x]
        f1 nv by simp
    show ?thesis
    proof (cases "set_real_server_input st1 si")
      case (Inl x)
      then have "set_server_input ?st si = Inl x" using serr by simp
      moreover have "set_both_inputs ?st ci si = Inl x"
        using \<open>set_real_client_input (set_constants ?st ?n) ci = Inr st1\<close> Inl
        by (simp add: set_both_inputs_def)
      ultimately show ?thesis using \<open>auto_setup e = Inr e1\<close> se cst
        by (simp add: run_joint_def run_as_both_def)
    next
      case (Inr st2)
      then obtain sst where sst: "set_server_input ?st si = Inr sst"
        using serr by (cases "set_server_input ?st si") auto
      have stb: "set_both_inputs ?st ci si = Inr (st2\<lparr>is_input_set := True\<rparr>)"
        using \<open>set_real_client_input (set_constants ?st ?n) ci = Inr st1\<close> Inr
        by (simp add: set_both_inputs_def)
      have "merge_parties cst sst = Inr (st2\<lparr>is_input_set := True\<rparr>)"
        by (rule merge_parties_both [OF d' nv cst sst stb])
      then show ?thesis using \<open>auto_setup e = Inr e1\<close> se cst sst stb
        by (cases "build_circuit (st2\<lparr>is_input_set := True\<rparr>)") (simp_all add: run_joint_def run_as_both_def)
    qed
  qed
qed

subsection \<open>Flags around a run\<close>

text \<open>
  Claim C15: On an engine that has not been built, \<open>run_as_both\<close> fails with the
  \<open>runtime_error\<close> of \<open>run_setup_phase\<close> (NotBuilt) before touching the inputs.
\<close>

theorem run_as_both_unbuilt:
  assumes "engine_inv cfg e" and "\<not> is_built e"
  shows "run_as_both e ci si = Inl NotBuilt"
  using assms by (simp add: engine_inv_def run_as_both_def auto_setup_def run_setup_phase_def)

text \<open>
  Claim C16: After a successful run the engine is still built but no longer set up (a new setup
  phase is needed), and its configuration is unchanged.
\<close>

theorem run_as_both_flags:
  assumes "engine_inv cfg e" and "run_as_both e ci si = Inr (e', r)"
  shows "is_built e' \<and> \<not> is_setup e' \<and> epicfg e' = epicfg e"
proof -
  obtain e1 where a: "auto_setup e = Inr e1" and e': "\<exists>st. e' = e1\<lparr>selc := st, is_setup := False\<rparr>"
    using assms by (auto simp: run_as_both_def bind_sum_Inr)
  have "is_built e1 \<and> epicfg e1 = epicfg e"
    using a assms(1) by (auto simp: engine_inv_def auto_setup_def run_setup_phase_def split: if_splits)
  with e' show ?thesis by auto
qed

lemma engine_reset_idem: "engine_reset (engine_reset e) = engine_reset e"
  by (simp add: engine_reset_def)

subsection \<open>What the input setters store and when they fail\<close>

lemma client_field_input_Inl:
  "client_field_input t ci (i, f) = Inl e \<Longrightarrow>
   (map_of (client_record ci) i = None \<and> e = OutOfRange) \<or>
   (\<exists>en. map_of (client_record ci) i = Some en \<and>
      length (entry_value (bitsize f) en) \<noteq> bitbytes (bitsize f) \<and> e = SizeMismatch)"
  by (auto simp: client_field_input_def map_at_def split: option.splits if_splits)

text \<open>
  Claim C10: \<open>set_client_input\<close> fails only in three ways: \<open>nvals\<close> is zero
  (the assertion of \<open>set_real_client_input\<close>), a configured field is missing from the
  client's record (\<open>std::out_of_range\<close> of \<open>record.at\<close>), or a field's value does not
  have the byte length of its bitsize (\<open>check_vector_size\<close>).
\<close>

theorem set_client_input_error:
  assumes "set_client_input st ci = Inl e"
  shows "(nvals32 (client_nvals ci) = 0 \<and> e = AssertFailed) \<or>
    (\<exists>(i, f)\<in>set (cfg_fields (circ_cfg st)).
       (map_of (client_record ci) i = None \<and> e = OutOfRange) \<or>
       (\<exists>en. map_of (client_record ci) i = Some en \<and>
          length (entry_value (bitsize f) en) \<noteq> bitbytes (bitsize f) \<and> e = SizeMismatch))"
proof (cases "nvals32 (client_nvals ci) = 0")
  case True
  then show ?thesis
    using assms by (simp add: set_client_input_err set_real_client_input_def)
next
  case False
  then have "fold_sum (\<lambda>s fi. client_field_input s ci fi) (cfg_fields (circ_cfg st))
               (set_constants st (nvals32 (client_nvals ci))) = Inl e"
    using assms by (simp add: set_client_input_err set_real_client_input_def)
  then obtain i f t where mem: "(i, f) \<in> set (cfg_fields (circ_cfg st))"
    and err: "client_field_input t ci (i, f) = Inl e"
    by (fastforce dest: fold_sum_Inl)
  from client_field_input_Inl [OF err] mem show ?thesis by blast
qed

text \<open>
  Claim C9: After a successful \<open>set_client_input\<close> (field names distinct), every configured
  field holds the client's real share of its record entry on all \<open>nvals\<close> lanes and a
  dummy server share, the index constants are \<open>0, ..., nvals-1\<close>, \<open>nvals\<close> is positive
  and the input is marked set.
\<close>

theorem set_client_input_shares:
  assumes d: "distinct (map fst (cfg_fields (circ_cfg st)))"
    and keys: "map fst (ins st) = map fst (cfg_fields (circ_cfg st))"
    and ok: "set_client_input st ci = Inr st'"
    and f: "map_of (cfg_fields (circ_cfg st)) i = Some f"
  shows "\<exists>en. map_of (client_record ci) i = Some en \<and>
     map_of (ins st') i = Some \<lparr>client_in = Real (client_value_share (nvals32 (client_nvals ci)) (circ_cfg st) f en),
                                 server_in = Dummy\<rparr> \<and>
     const_idx st' = [0..<nvals32 (client_nvals ci)] \<and> 0 < sc_nvals st' \<and> is_input_set st'"
proof -
  let ?n = "nvals32 (client_nvals ci)" and ?fs = "cfg_fields (circ_cfg st)"
  from ok set_client_input_Inr [OF d] have n: "0 < ?n" and cok: "client_input_ok ?fs ci"
    and st': "st' = (set_constants st ?n)\<lparr>ins :=
        map (\<lambda>(k, s). (k, case map_of ?fs k of
               Some f \<Rightarrow> s\<lparr>client_in := Real (client_value_share ?n (circ_cfg st) f
                                 (the (map_of (client_record ci) k))), server_in := Dummy\<rparr>
             | None \<Rightarrow> s)) (ins st), is_input_set := True\<rparr>"
    by blast+
  from f have "(i, f) \<in> set ?fs" by (rule map_of_SomeD)
  with cok obtain en where en: "map_of (client_record ci) i = Some en"
    by (auto simp: client_input_ok_def list_all_iff split: option.splits)
  from f have "i \<in> set (map fst (ins st))" unfolding keys by (force intro: map_of_Some_key)
  from key_map_of_Some [OF this] obtain s where "map_of (ins st) i = Some s" by blast
  then have "map_of (ins st') i = Some \<lparr>client_in = Real (client_value_share ?n (circ_cfg st) f en),
                                         server_in = Dummy\<rparr>"
    using st' f en by (simp add: map_of_map_case input_shares_upd2)
  moreover have "const_idx st' = [0..<?n]" using st' by (simp add: set_constants_idx)
  ultimately show ?thesis using st' n en by simp
qed

end
