(* ===== verification/TestData.thy ===== *)
theory TestData
  imports Input
begin

text \<open>
  The test data of \<open>src/test/test_sel.cpp\<close>: the four fields of
  \<open>make_test_data()\<close> with their sample values, the configurations the test builds
  from them (\<open>EpilinkConfig\<close>'s defaults: no matching mode, \<open>bitlen = 32\<close>, the
  width of \<open>CircUnit\<close>), and the thresholds \<open>Threshold = 0.9\<close> and
  \<open>TThreshold = 0.7\<close>.
\<close>

definition test_threshold :: rat where "test_threshold = 9 / 10"
definition test_tthreshold :: rat where "test_tthreshold = 7 / 10"

definition make_test_data :: "(field_name \<times> ml_field \<times> bitmask) list" where
  "make_test_data =
     [(''bm_1'', \<lparr>fname = ''bm_1'', weight = 2, comparator = DICE, ftype = BITMASK, bitsize = 8\<rparr>, [1]),
      (''bm_2'', \<lparr>fname = ''bm_2'', weight = 4, comparator = DICE, ftype = BITMASK, bitsize = 8\<rparr>, [1]),
      (''int_1'', \<lparr>fname = ''int_1'', weight = 1, comparator = BINARY, ftype = INTEGER, bitsize = 29\<rparr>,
         [0xde, 0xad, 0xbe, 0xef]),
      (''int_2'', \<lparr>fname = ''int_2'', weight = 3, comparator = BINARY, ftype = INTEGER, bitsize = 32\<rparr>,
         [0xde, 0xce, 0xa5, 0xed])]"

definition test_field :: "field_name \<Rightarrow> ml_field" where
  "test_field n = fst (the (map_of make_test_data n))"

definition test_value :: "field_name \<Rightarrow> bitmask" where
  "test_value n = snd (the (map_of make_test_data n))"

text \<open>The field maps of \<open>input_simple\<close>, \<open>input_simple_bm\<close>, \<open>input_exchange_grp\<close>, \<open>input_empty\<close>.\<close>

definition fields_simple :: field_map where
  "fields_simple = [(''int_1'', test_field ''int_1'')]"

definition fields_simple_bm :: field_map where
  "fields_simple_bm = [(''bm_1'', test_field ''bm_1'')]"

definition fields_exchange_grp :: field_map where
  "fields_exchange_grp =
     [(''bm_1'', test_field ''bm_1''), (''bm_2'', test_field ''bm_2''),
      (''int_1'', test_field ''int_1''), (''int_2'', test_field ''int_2'')]"

definition fields_empty :: field_map where
  "fields_empty = [(''bm_1'', test_field ''bm_1''), (''bm_2'', test_field ''bm_2'')]"

definition test_config :: "field_map \<Rightarrow> index_set list \<Rightarrow> sel_error + epilink_config" where
  "test_config fs gs = make_epilink_config fs gs test_threshold test_tthreshold False 32"

lemma test_field_simps [simp]:
  "test_field ''int_1'' = \<lparr>fname = ''int_1'', weight = 1, comparator = BINARY, ftype = INTEGER, bitsize = 29\<rparr>"
  "test_field ''int_2'' = \<lparr>fname = ''int_2'', weight = 3, comparator = BINARY, ftype = INTEGER, bitsize = 32\<rparr>"
  "test_field ''bm_1'' = \<lparr>fname = ''bm_1'', weight = 2, comparator = DICE, ftype = BITMASK, bitsize = 8\<rparr>"
  "test_field ''bm_2'' = \<lparr>fname = ''bm_2'', weight = 4, comparator = DICE, ftype = BITMASK, bitsize = 8\<rparr>"
  by (simp_all add: test_field_def make_test_data_def)

lemma test_value_simps [simp]:
  "test_value ''int_1'' = [0xde, 0xad, 0xbe, 0xef]"
  "test_value ''int_2'' = [0xde, 0xce, 0xa5, 0xed]"
  "test_value ''bm_1'' = [1]"
  "test_value ''bm_2'' = [1]"
  by (simp_all add: test_value_def make_test_data_def)

lemma test_config_simple:
  "test_config fields_simple [] = Inr
     \<lparr>cfg_fields = fields_simple, exchange_groups = [], threshold = 9/10, tthreshold = 7/10,
      matching_mode = False, bitlen = 32, nfields = 1, max_weight = 1,
      dice_prec = 14, weight_prec = 9, size_hw = 1\<rparr>"
  by (simp add: test_config_def fields_simple_def test_threshold_def test_tthreshold_def) code_simp

end
