(* ===== verification/Scenarios.thy ===== *)
theory Scenarios
  imports Engine TestData "HOL-Library.Code_Target_Nat" "HOL-Library.Code_Target_Int"
begin

text \<open>
  The inputs of \<open>src/test/test_sel.cpp\<close> (\<open>input_simple\<close>, \<open>input_simple_bm\<close>,
  \<open>input_exchange_grp\<close>, \<open>input_empty\<close>, with one database row unless stated) and
  the test's run: an engine built from the test configuration, its setup phase, and
  \<open>run_as_both\<close> with both inputs.  The results are computed from the model by
  rewriting with the code equations.
\<close>

definition mk_client_input :: "(field_name \<times> field_entry) list \<Rightarrow> nat \<Rightarrow> epilink_client_input" where
  "mk_client_input r n = \<lparr>client_record = r, client_nvals = n\<rparr>"

definition mk_server_input :: "(field_name \<times> vfield_entry) list \<Rightarrow> epilink_server_input" where
  "mk_server_input db = \<lparr>database = db, server_nvals = length (snd (hd db))\<rparr>"

text \<open>\<open>build_circuit\<close>, \<open>run_setup_phase\<close>, \<open>run_as_both\<close> on a fresh engine.\<close>

definition run_test ::
  "field_map \<Rightarrow> index_set list \<Rightarrow> epilink_client_input \<Rightarrow> epilink_server_input \<Rightarrow> sel_error + sel_result" where
  "run_test fs gs ci si =
     bind_sum (test_config fs gs) (\<lambda>cfg.
     bind_sum (run_setup_phase (engine_build (make_engine cfg))) (\<lambda>e.
     bind_sum (run_as_both e ci si) (\<lambda>(_, r). Inr r)))"

definition input_simple :: "epilink_client_input \<times> epilink_server_input" where
  "input_simple =
     (mk_client_input [(''int_1'', Some (test_value ''int_1''))] 1,
      mk_server_input [(''int_1'', [Some (test_value ''int_1'')])])"

definition input_simple_bm :: "epilink_client_input \<times> epilink_server_input" where
  "input_simple_bm =
     (mk_client_input [(''bm_1'', Some [0b01110111])] 1,
      mk_server_input [(''bm_1'', [Some [0b11101110]])])"

definition input_exchange_grp :: "epilink_client_input \<times> epilink_server_input" where
  "input_exchange_grp =
     (mk_client_input [(''bm_1'', Some [0x33]), (''bm_2'', Some [0x43]),
                 (''int_1'', Some (test_value ''int_1'')), (''int_2'', Some (test_value ''int_2''))] 1,
      mk_server_input [(''bm_1'', [Some [0x44]]), (''bm_2'', [Some [0x35]]),
                 (''int_1'', [Some (test_value ''int_1'')]), (''int_2'', [Some (test_value ''int_2'')])])"

definition input_empty :: "epilink_client_input \<times> epilink_server_input" where
  "input_empty =
     (mk_client_input [(''bm_1'', None), (''bm_2'', Some [0x44])] 2,
      mk_server_input [(''bm_1'', [None, Some [0x31]]), (''bm_2'', [Some [0x43], Some [0x44]])])"

text \<open>
  A database whose first row is empty in every field and whose second row equals the
  query record.
\<close>

definition input_empty_first_row :: "epilink_client_input \<times> epilink_server_input" where
  "input_empty_first_row =
     (mk_client_input [(''bm_1'', Some [0x44]), (''bm_2'', Some [0x44])] 2,
      mk_server_input [(''bm_1'', [None, Some [0x44]]), (''bm_2'', [None, Some [0x44]])])"

text \<open>
  Scenario 1 of the test: a single \<open>BINARY\<close> field with equal values on both
  sides gives index 0, match and tentative match.
\<close>

theorem scenario_simple: "run_test fields_simple [] (fst input_simple) (snd input_simple) =
  Inr \<lparr>r_index = 0, r_match = True, r_tmatch = True, r_num = 8372224, r_den = push_bit 14 511\<rparr>"
  by code_simp

text \<open>
  Scenario 2 of the test: a single \<open>DICE\<close> field with client \<open>0b01110111\<close> and
  server \<open>0b11101110\<close> (popcount of the AND is 4, similarity 8/12) gives index 0, no
  match and no tentative match.
\<close>

theorem scenario_simple_bm: "run_test fields_simple_bm [] (fst input_simple_bm) (snd input_simple_bm) =
  Inr \<lparr>r_index = 0, r_match = False, r_tmatch = False, r_num = 1396395, r_den = push_bit 11 1023\<rparr>"
  by code_simp

text \<open>
  Scenario 3 of the test: the exchange group \<open>{bm_1, bm_2}\<close> with two \<open>BINARY\<close>
  fields gives index 0, no match, tentative match.
\<close>

theorem scenario_exchange_grp: "run_test fields_exchange_grp [[''bm_1'', ''bm_2'']] (fst input_exchange_grp) (snd input_exchange_grp) =
  Inr \<lparr>r_index = 0, r_match = False, r_tmatch = True, r_num = 972045, r_den = push_bit 11 637\<rparr>"
  by code_simp

text \<open>
  Scenario 4 of the test: with \<open>bm_1\<close> empty on the client, the second row, equal
  to the client in \<open>bm_2\<close>, wins with a match.
\<close>

theorem scenario_empty: "run_test fields_empty [] (fst input_empty) (snd input_empty) =
  Inr \<lparr>r_index = 1, r_match = True, r_tmatch = True, r_num = 1046528, r_den = push_bit 11 511\<rparr>"
  by code_simp

text \<open>
  An instance of \<open>build_circuit_empty_lane0\<close>: a database whose first row is empty in every field and whose second row equals the
  query: the run returns index 0 with no match, the exact match in row 1 is lost.
\<close>

theorem scenario_empty_row_wins: "run_test fields_empty [] (fst input_empty_first_row) (snd input_empty_first_row) =
  Inr \<lparr>r_index = 0, r_match = False, r_tmatch = False, r_num = 0, r_den = 0\<rparr>"
  by code_simp

end
