(* ===== verification/DataHandler.thy ===== *)
theory DataHandler
  imports Engine
begin

text \<open>
  The server's database cache \<open>DataHandler\<close> (\<open>src/include/datahandler.cpp\<close>):
  \<open>poll_database\<close> stores the data the \<open>DatabaseFetcher\<close> returned and reports the
  number of rows (the size of the first column), \<open>get_database\<close> returns the stored
  data, \<open>poll_database_diff\<close> is a stub.  Both accesses to \<open>m_database\<close> hold
  \<open>m_db_mutex\<close>, so every execution of concurrent polls and reads is a sequence of
  whole operations; the model runs such a sequence (\<open>dh_run\<close>) and shows that it
  behaves as a single register holding the last polled data.  The REST fetch is an
  argument: its result is the data the operation stores.  Also modelled: the
  \<open>Debugger\<close> of \<open>DEBUG_SEL_REST\<close> builds (its flags and \<open>reset\<close>), and the
  \<open>LocalServer\<close> constructor from an engine configuration.
\<close>

text \<open>\<open>ServerData{data, ids, todate}\<close>.\<close>

record server_data =
  sd_data :: "(field_name \<times> vfield_entry) list"
  sd_ids :: "string list"
  sd_todate :: nat

record data_handler =
  dh_database :: "server_data option"

text \<open>
  \<open>poll_database(remote_id)\<close> with the fetched data: the data is stored under the lock,
  then \<open>m_database->data.begin()->second.size()\<close> is returned, undefined when the data
  has no column.
\<close>

definition poll_database :: "data_handler \<Rightarrow> server_data \<Rightarrow> sel_error + data_handler \<times> nat" where
  "poll_database h fetched =
     (let h' = h\<lparr>dh_database := Some fetched\<rparr>
      in case sd_data fetched of
           [] \<Rightarrow> Inl Undefined
         | (_, col) # _ \<Rightarrow> Inr (h', length col))"

definition poll_database_diff :: "data_handler \<Rightarrow> nat" where
  "poll_database_diff h = 0"

definition get_database :: "data_handler \<Rightarrow> server_data option" where
  "get_database h = dh_database h"

subsection \<open>Operations under the mutex\<close>

datatype dh_op = Poll server_data | Get

text \<open>The result of one operation: the row count of a poll, or the data a read returned.\<close>

type_synonym dh_out = "nat + server_data option"

fun dh_step :: "data_handler \<Rightarrow> dh_op \<Rightarrow> sel_error + data_handler \<times> dh_out" where
  "dh_step h (Poll d) = bind_sum (poll_database h d) (\<lambda>(h', n). Inr (h', Inl n))"
| "dh_step h Get = Inr (h, Inr (get_database h))"

fun dh_run :: "data_handler \<Rightarrow> dh_op list \<Rightarrow> sel_error + data_handler \<times> dh_out list" where
  "dh_run h [] = Inr (h, [])"
| "dh_run h (op # ops) =
     bind_sum (dh_step h op) (\<lambda>(h1, out).
     bind_sum (dh_run h1 ops) (\<lambda>(h2, outs). Inr (h2, out # outs)))"

text \<open>
  The specification: a register.  A read returns the data of the last poll before it
  (or the initial content), a poll answers the length of the first column of its data.
\<close>

definition last_polled :: "server_data option \<Rightarrow> dh_op list \<Rightarrow> server_data option" where
  "last_polled d ops = fold (\<lambda>op d. case op of Poll x \<Rightarrow> Some x | Get \<Rightarrow> d) ops d"

fun register_outs :: "server_data option \<Rightarrow> dh_op list \<Rightarrow> dh_out list" where
  "register_outs d [] = []"
| "register_outs d (Poll x # ops) = Inl (length (snd (hd (sd_data x)))) # register_outs (Some x) ops"
| "register_outs d (Get # ops) = Inr d # register_outs d ops"

definition polls_ok :: "dh_op list \<Rightarrow> bool" where
  "polls_ok ops \<longleftrightarrow> list_all (\<lambda>op. case op of Poll x \<Rightarrow> sd_data x \<noteq> [] | Get \<Rightarrow> True) ops"

subsection \<open>\<open>Debugger\<close> (\<open>DEBUG_SEL_REST\<close>)\<close>

record debugger =
  dbg_client_input :: "epilink_client_input option"
  dbg_server_input :: "epilink_server_input option"
  dbg_epilink_config :: "epilink_config option"
  dbg_int_result :: "sel_result option"
  dbg_double_result :: "sel_result option"
  dbg_run :: bool

definition all_values_set :: "debugger \<Rightarrow> bool" where
  "all_values_set d \<longleftrightarrow>
     dbg_client_input d \<noteq> None \<and> dbg_server_input d \<noteq> None \<and> dbg_epilink_config d \<noteq> None"

definition debugger_reset :: "debugger \<Rightarrow> debugger" where
  "debugger_reset d =
     d\<lparr>dbg_client_input := None, dbg_server_input := None, dbg_epilink_config := None,
       dbg_int_result := None, dbg_double_result := None, dbg_run := False\<rparr>"

subsection \<open>The \<open>LocalServer\<close> constructor\<close>

text \<open>The parts of \<open>SecureEpilinker::ABYConfig\<close> the server keeps.\<close>

record aby_config =
  remote_host :: string
  aby_port :: nat

definition make_local_server :: "string \<Rightarrow> aby_config \<Rightarrow> epilink_config \<Rightarrow> local_server" where
  "make_local_server rid ac cfg =
     \<lparr>ls_remote_id = rid, ls_client_ip = remote_host ac, ls_client_port = aby_port ac,
      ls_data = None, ls_engine = make_engine cfg\<rparr>"

subsection \<open>Lemmas\<close>

lemma poll_database_Inr:
  "poll_database h d = Inr (h', n) \<longleftrightarrow>
   sd_data d \<noteq> [] \<and> h' = h\<lparr>dh_database := Some d\<rparr> \<and> n = length (snd (hd (sd_data d)))"
  by (auto simp: poll_database_def split: list.splits)

lemma dh_step_Inr:
  "dh_step h op = Inr (h', out) \<longleftrightarrow>
   (case op of
      Poll x \<Rightarrow> sd_data x \<noteq> [] \<and> h' = h\<lparr>dh_database := Some x\<rparr> \<and> out = Inl (length (snd (hd (sd_data x))))
    | Get \<Rightarrow> h' = h \<and> out = Inr (dh_database h))"
  by (cases op) (auto simp: bind_sum_Inr poll_database_Inr get_database_def)

lemma dh_run_Cons_Inr:
  "dh_run h (op # ops) = Inr (h', outs) \<longleftrightarrow>
   (\<exists>h1 out outs'. dh_step h op = Inr (h1, out) \<and> dh_run h1 ops = Inr (h', outs') \<and> outs = out # outs')"
  by (auto simp: bind_sum_Inr)

lemma dh_run_Inr:
  "dh_run h ops = Inr (h', outs) \<longleftrightarrow>
   polls_ok ops \<and> outs = register_outs (dh_database h) ops \<and>
   dh_database h' = last_polled (dh_database h) ops"
proof (induction ops arbitrary: h h' outs)
  case Nil
  then show ?case
    by (cases h, cases h') (auto simp: polls_ok_def last_polled_def)
next
  case (Cons op ops)
  show ?case
  proof (cases op)
    case (Poll x)
    have "dh_run h (op # ops) = Inr (h', outs) \<longleftrightarrow>
          sd_data x \<noteq> [] \<and> (\<exists>outs'. dh_run (h\<lparr>dh_database := Some x\<rparr>) ops = Inr (h', outs') \<and>
             outs = Inl (length (snd (hd (sd_data x)))) # outs')"
      unfolding dh_run_Cons_Inr Poll dh_step_Inr by auto
    then show ?thesis
      using Cons.IH [of "h\<lparr>dh_database := Some x\<rparr>" h'] Poll
      by (auto simp: polls_ok_def last_polled_def)
  next
    case Get
    have "dh_run h (op # ops) = Inr (h', outs) \<longleftrightarrow>
          (\<exists>outs'. dh_run h ops = Inr (h', outs') \<and> outs = Inr (dh_database h) # outs')"
      unfolding dh_run_Cons_Inr Get dh_step_Inr by auto
    then show ?thesis
      using Cons.IH [of h h'] Get
      by (auto simp: polls_ok_def last_polled_def)
  qed
qed

lemma register_outs_Get_nth:
  "i < length ops \<Longrightarrow> ops ! i = Get \<Longrightarrow> register_outs d ops ! i = Inr (last_polled d (take i ops))"
proof (induction ops arbitrary: d i)
  case Nil
  then show ?case by simp
next
  case (Cons op ops)
  show ?case
  proof (cases i)
    case 0
    then show ?thesis using Cons.prems by (simp add: last_polled_def)
  next
    case (Suc j)
    then have "j < length ops" "ops ! j = Get" using Cons.prems by simp_all
    then show ?thesis
      using Suc Cons.IH by (cases op) (simp_all add: last_polled_def)
  qed
qed

text \<open>
  Claim C11: Any sequence of polls and reads of the \<open>DataHandler\<close> (each atomic under
  \<open>m_db_mutex\<close>) that completes behaves as a register: every read returns the data of
  the last poll before it, or the initial content, and afterwards the handler holds the
  data of the last poll.
\<close>

theorem dh_get_latest:
  assumes "dh_run h ops = Inr (h', outs)" and "i < length ops" and "ops ! i = Get"
  shows "outs ! i = Inr (last_polled (dh_database h) (take i ops)) \<and>
         get_database h' = last_polled (dh_database h) ops"
  using assms dh_run_Inr [of h ops h' outs] register_outs_Get_nth [OF assms(2,3)]
  by (simp add: get_database_def)

text \<open>
  Claim C12: A sequence of polls and reads completes exactly when every polled data set has
  a column; a poll of data without columns reads \<open>begin()\<close> of an empty map.
\<close>

theorem dh_run_succeeds: "(\<exists>r. dh_run h ops = Inr r) \<longleftrightarrow> polls_ok ops"
proof
  assume "\<exists>r. dh_run h ops = Inr r"
  then obtain h' outs where "dh_run h ops = Inr (h', outs)" by auto
  then show "polls_ok ops" by (simp add: dh_run_Inr)
next
  assume "polls_ok ops"
  then have "dh_run h ops = Inr (h\<lparr>dh_database := last_polled (dh_database h) ops\<rparr>,
                                 register_outs (dh_database h) ops)"
    by (simp add: dh_run_Inr)
  then show "\<exists>r. dh_run h ops = Inr r" ..
qed

end
