(* ===== verification/Clear.thy ===== *)
theory Clear
  imports Linkage
begin

text \<open>
  The clear-text reference evaluator of the spec (component C4, \<open>clear_epilinker\<close>,
  not among the sources) in its 32-bit integer instantiation (\<open>calc<uint32_t>\<close>, the
  one the test compares the secure result with), and the refinement of it by the
  SIMD circuit of \<open>Linkage\<close>: on every lane, the circuit computes the evaluator's
  score of the corresponding database row.

  The evaluator compares a record with one database row field by field: the
  set-similarity \<open>2 * popcount(x AND y) / (popcount(x) + popcount(y))\<close> in fixed point
  with \<open>dice_prec\<close> bits (zero for two empty popcounts), or equality scaled to
  \<open>2^dice_prec\<close>; the weight is the rescaled average weight when both entries are
  present; for an exchange group the permutation of largest quotient, the first on
  ties; the score is the quotient of the sums.  The row of largest score wins, the
  first on ties, and the thresholds are compared as \<open>T * D < N\<close>.
\<close>

subsection \<open>Bit counts of bitmasks\<close>

definition popcnt :: "bitmask \<Rightarrow> nat" where
  "popcnt x = count_list (bm_bits x) True"

definition popcnt_and :: "bitmask \<Rightarrow> bitmask \<Rightarrow> nat" where
  "popcnt_and x y = count_list (map2 (\<and>) (bm_bits x) (bm_bits y)) True"

text \<open>A value of a field of \<open>b\<close> bits: \<open>bitbytes b\<close> bytes, no bit set from bit \<open>b\<close> on.\<close>

definition bm_fits :: "nat \<Rightarrow> bitmask \<Rightarrow> bool" where
  "bm_fits b x \<longleftrightarrow> length x = bitbytes b \<and> True \<notin> set (drop b (bm_bits x))"

subsection \<open>The evaluator\<close>

definition clear_dice :: "nat \<Rightarrow> bitmask \<Rightarrow> bitmask \<Rightarrow> nat" where
  "clear_dice prec x y =
     (if popcnt x + popcnt y = 0 then 0
      else popcnt_and x y * 2 ^ (prec + 1) div (popcnt x + popcnt y))"

definition clear_comp :: "epilink_config \<Rightarrow> ml_field \<Rightarrow> bitmask \<Rightarrow> bitmask \<Rightarrow> nat" where
  "clear_comp cfg f x y =
     (if comparator f = DICE then clear_dice (unat (dice_prec cfg)) x y
      else if x = y then 2 ^ unat (dice_prec cfg) else 0)"

text \<open>\<open>w(i,j) = (weight_i + weight_j)/2 * delta_x(i) * delta_y(j)\<close> and \<open>c(i,j) * w(i,j)\<close>.\<close>

definition clear_field_weight ::
  "epilink_config \<Rightarrow> ml_field \<Rightarrow> ml_field \<Rightarrow> field_entry \<Rightarrow> field_entry \<Rightarrow> field_weight" where
  "clear_field_weight cfg fl fr ex ey =
     (let wt = (if ex \<noteq> None \<and> ey \<noteq> None then weight_r cfg fl fr else 0);
          c = clear_comp cfg fl (entry_value (bitsize fl) ex) (entry_value (bitsize fr) ey)
      in \<lparr>fw = wt * of_nat c, w = wt\<rparr>)"

text \<open>One row of the database: the entries of row \<open>j\<close> of every column.\<close>

definition clear_row :: "(field_name \<times> vfield_entry) list \<Rightarrow> nat \<Rightarrow> (field_name \<times> field_entry) list" where
  "clear_row db j = map (\<lambda>(k, col). (k, col ! j)) db"

text \<open>The field weight of the record's field \<open>il\<close> against the row's field \<open>ir\<close>.\<close>

definition clear_pair ::
  "epilink_config \<Rightarrow> (field_name \<times> field_entry) list \<Rightarrow> (field_name \<times> field_entry) list
   \<Rightarrow> field_name \<times> field_name \<Rightarrow> field_weight" where
  "clear_pair cfg rec row p =
     (let (il, ir) = p; fs = cfg_fields cfg
      in clear_field_weight cfg (the (map_of fs il)) (the (map_of fs ir))
           (the (map_of rec il)) (the (map_of row ir)))"

text \<open>The first of the largest quotients of a non-empty list.\<close>

definition first_max :: "arith_quotient list \<Rightarrow> arith_quotient" where
  "first_max qs = foldl (\<lambda>a b. if qrank a < qrank b then b else a) (hd qs) (tl qs)"

text \<open>The quotients of the permutations of a group on one row.\<close>

definition perm_quotients ::
  "epilink_config \<Rightarrow> (field_name \<times> field_entry) list \<Rightarrow> (field_name \<times> field_entry) list
   \<Rightarrow> index_set \<Rightarrow> arith_quotient list" where
  "perm_quotients cfg rec row grp =
     map (\<lambda>perm. sum_field_weights (map (clear_pair cfg rec row) (zip grp perm))) (perm_loop grp)"

definition clear_group_weight ::
  "epilink_config \<Rightarrow> (field_name \<times> field_entry) list \<Rightarrow> (field_name \<times> field_entry) list
   \<Rightarrow> index_set \<Rightarrow> field_weight" where
  "clear_group_weight cfg rec row grp =
     (let q = first_max (perm_quotients cfg rec row grp) in \<lparr>fw = num q, w = den q\<rparr>)"

text \<open>The score \<open>N/D\<close> of a row: the groups, then the fields outside every group.\<close>

definition clear_score ::
  "epilink_config \<Rightarrow> (field_name \<times> field_entry) list \<Rightarrow> (field_name \<times> field_entry) list
   \<Rightarrow> arith_quotient" where
  "clear_score cfg rec row =
     (let gs = exchange_groups cfg;
          rest = filter (\<lambda>i. i \<notin> set (concat gs)) (map fst (cfg_fields cfg))
      in sum_field_weights (map (clear_group_weight cfg rec row) gs @
                            map (\<lambda>i. clear_pair cfg rec row (i, i)) rest))"

definition clear_scores :: "epilink_config \<Rightarrow> epilink_client_input \<Rightarrow> epilink_server_input \<Rightarrow> nat \<Rightarrow> arith_quotient list" where
  "clear_scores cfg ci si n = map (\<lambda>j. clear_score cfg (client_record ci) (clear_row (database si) j)) [0..<n]"

text \<open>
  The row the evaluator selects: the first of the largest scores, with its index, and
  the threshold tests with the constants of \<open>set_constants\<close>.
\<close>

definition clear_result ::
  "epilink_config \<Rightarrow> epilink_client_input \<Rightarrow> epilink_server_input \<Rightarrow> nat \<Rightarrow> result_shares" where
  "clear_result cfg ci si n =
     (let ps = zip (clear_scores cfg ci si n) [0..<n];
          (q, idx) = foldl (\<lambda>a b. if qrank (fst a) < qrank (fst b) then b else a) (hd ps) (tl ps);
          scale = (2 :: rat) ^ unat (dice_prec cfg);
          t = double_to_circ (threshold cfg * scale);
          tt = double_to_circ (tthreshold cfg * scale)
      in \<lparr>res_index = idx, res_match = t * den q < num q, res_tmatch = tt * den q < num q,
          res_num = num q, res_den = den q\<rparr>)"

subsection \<open>The joint inputs the refinement starts from\<close>

text \<open>
  Every configured field holds the client's real share of its record entry and the
  server's real share of its column, on \<open>sc_nvals\<close> lanes: the state
  \<open>set_both_inputs\<close> produces, and the joint state of a production run.
\<close>

definition joint_inputs :: "sel_circuit \<Rightarrow> epilink_client_input \<Rightarrow> epilink_server_input \<Rightarrow> bool" where
  "joint_inputs st ci si \<longleftrightarrow>
     list_all (\<lambda>(i, f). map_of (ins st) i =
        Some \<lparr>client_in = Real (client_value_share (sc_nvals st) (circ_cfg st) f (the (map_of (client_record ci) i))),
              server_in = Real (server_value_share (sc_nvals st) (circ_cfg st) f (the (map_of (database si) i)))\<rparr>)
       (cfg_fields (circ_cfg st))"

text \<open>
  The gadgets compute the evaluator's comparison on a pair of values when the values
  fit the field's bitsize and, for \<open>DICE\<close>, the Hamming weights fit their shares and
  the 16-bit division sees its inputs whole.
\<close>

definition lane_ok :: "epilink_config \<Rightarrow> ml_field \<Rightarrow> bitmask \<Rightarrow> bitmask \<Rightarrow> bool" where
  "lane_ok cfg f x y \<longleftrightarrow>
     bm_fits (bitsize f) x \<and> bm_fits (bitsize f) y \<and>
     (comparator f = DICE \<longrightarrow>
        8 * length x < 2 ^ 32 \<and> 8 * length y < 2 ^ 32 \<and>
        popcnt x < 2 ^ size_hw cfg \<and> popcnt y < 2 ^ size_hw cfg \<and>
        popcnt_and x y * 2 ^ (unat (dice_prec cfg) + 1) < 2 ^ 16 \<and> popcnt x + popcnt y < 2 ^ 16)"

text \<open>
  The lanes of every pair of fields the circuit compares (equal comparator and bitsize)
  satisfy \<open>lane_ok\<close>, and every column has at least \<open>sc_nvals\<close> rows.
\<close>

definition lanes_ok :: "sel_circuit \<Rightarrow> epilink_client_input \<Rightarrow> epilink_server_input \<Rightarrow> bool" where
  "lanes_ok st ci si \<longleftrightarrow>
     (\<forall>(il, fl)\<in>set (cfg_fields (circ_cfg st)). \<forall>(ir, fr)\<in>set (cfg_fields (circ_cfg st)).
        comparator fl = comparator fr \<and> bitsize fl = bitsize fr \<longrightarrow>
        map_of (database si) ir \<noteq> None \<and> sc_nvals st \<le> length (the (map_of (database si) ir)) \<and>
        (\<forall>j < sc_nvals st. lane_ok (circ_cfg st) fl
            (entry_value (bitsize fl) (the (map_of (client_record ci) il)))
            (entry_value (bitsize fl) (the (map_of (database si) ir) ! j))))"

text \<open>
  The tournament of the circuit picks the evaluator's first maximum when the
  denominators are positive and no cross product overflows.
\<close>

definition quotients_ok :: "arith_quotient list \<Rightarrow> bool" where
  "quotients_ok qs \<longleftrightarrow>
     (\<forall>a\<in>set qs. 0 < unat (den a) \<and> (\<forall>b\<in>set qs. unat (num a) * unat (den b) < 2 ^ 32))"

text \<open>Every value of the inputs fits the bitsize of its field.\<close>

definition inputs_fit :: "field_map \<Rightarrow> epilink_client_input \<Rightarrow> epilink_server_input \<Rightarrow> bool" where
  "inputs_fit fs ci si \<longleftrightarrow>
     list_all (\<lambda>(i, f). bm_fits (bitsize f) (entry_value (bitsize f) (the (map_of (client_record ci) i))) \<and>
                       list_all (\<lambda>e. bm_fits (bitsize f) (entry_value (bitsize f) e)) (the (map_of (database si) i)))
       fs"

subsection \<open>Evaluation\<close>

text \<open>The score and the scores without a bound variable under a map (for evaluation).\<close>

lemma clear_pair_code [code]:
  "clear_pair cfg rec row (il, ir) =
     clear_field_weight cfg (the (map_of (cfg_fields cfg) il)) (the (map_of (cfg_fields cfg) ir))
       (the (map_of rec il)) (the (map_of row ir))"
  unfolding clear_pair_def Let_def prod.case ..

lemma perm_quotients_code [code]:
  "perm_quotients cfg rec row grp =
     map sum_field_weights (map (map (clear_pair cfg rec row)) (map (zip grp) (perm_loop grp)))"
  unfolding perm_quotients_def map_map comp_def ..

lemma clear_score_code [code]:
  "clear_score cfg rec row =
     sum_field_weights (map (clear_group_weight cfg rec row) (exchange_groups cfg) @
       map (clear_pair cfg rec row) (map (\<lambda>i. (i, i))
         (filter (\<lambda>i. i \<notin> set (concat (exchange_groups cfg))) (map fst (cfg_fields cfg)))))"
  unfolding clear_score_def Let_def map_map comp_def by (rule refl)

lemma clear_scores_code [code]:
  "clear_scores cfg ci si n = map (clear_score cfg (client_record ci)) (map (clear_row (database si)) [0..<n])"
  by (simp add: clear_scores_def)

subsection \<open>The gadgets compute the evaluator's comparisons\<close>

lemma count_list_no_True: "True \<notin> set xs \<Longrightarrow> count_list xs True = 0"
  by (induction xs) auto

lemma count_map2_and_le: "count_list (map2 (\<and>) xs ys) True \<le> count_list xs True"
proof (induction xs arbitrary: ys)
  case Nil
  then show ?case by simp
next
  case (Cons a xs)
  then show ?case
    by (cases ys) (auto intro: le_SucI)
qed

lemma count_take_fits:
  "True \<notin> set (drop b xs) \<Longrightarrow> count_list xs True = count_list (take b xs) True"
  by (metis append_take_drop_id count_list_append count_list_no_True add_0_right)

lemma popcnt_fits: "bm_fits b x \<Longrightarrow> popcnt x = count_list (take b (bm_bits x)) True"
  unfolding bm_fits_def popcnt_def by (blast intro: count_take_fits)

lemma popcnt_le: "bm_fits b x \<Longrightarrow> popcnt x \<le> b"
proof -
  assume "bm_fits b x"
  then have "popcnt x = count_list (take b (bm_bits x)) True" by (rule popcnt_fits)
  also have "\<dots> \<le> length (take b (bm_bits x))" by (rule count_list_le_length)
  also have "\<dots> \<le> b" by simp
  finally show ?thesis .
qed

lemma popcnt_and_le: "popcnt_and x y \<le> popcnt x"
  unfolding popcnt_and_def popcnt_def by (rule count_map2_and_le)

lemma hammingweight_lane_bits:
  assumes "bm_fits b x"
  shows "hammingweight (map2 (\<and>) (lane_bits b x) (lane_bits b y)) = popcnt_and x y"
proof -
  let ?m = "map2 (\<and>) (bm_bits x) (bm_bits y)"
  have "True \<notin> set (drop b (bm_bits x))" using assms by (simp add: bm_fits_def)
  then have "True \<notin> set (drop b ?m)"
    by (auto simp: drop_map drop_zip dest: set_zip_leftD)
  then have "count_list ?m True = count_list (take b ?m) True" by (rule count_take_fits)
  then show ?thesis
    by (simp add: hammingweight_def popcnt_and_def lane_bits_def take_map take_zip)
qed

lemma lane_unit_hw:
  assumes "8 * length x < 2 ^ 32" and "popcnt x < 2 ^ s"
  shows "lane_unit s (hw x) = popcnt x"
  using assms unat_hw [OF assms(1)] by (simp add: lane_unit_def popcnt_def)

lemma dice_lane:
  assumes fx: "bm_fits b x" and lx: "8 * length x < 2 ^ 32" and ly: "8 * length y < 2 ^ 32"
    and sx: "popcnt x < 2 ^ s" and sy: "popcnt y < 2 ^ s"
    and a: "popcnt_and x y * 2 ^ (p + 1) < 2 ^ 16" and xy: "popcnt x + popcnt y < 2 ^ 16"
  shows "dice_coefficient (lane_bits b x) (lane_bits b y) (lane_unit s (hw x)) (lane_unit s (hw y)) p =
         clear_dice p x y"
  using hammingweight_lane_bits [OF fx, of y] lane_unit_hw [OF lx sx] lane_unit_hw [OF ly sy] a xy
  by (simp add: dice_coefficient_def clear_dice_def int_div_16_def Let_def)

lemma byte_bits_inj: "byte_bits a = byte_bits c \<Longrightarrow> a = c"
proof -
  assume h: "byte_bits a = byte_bits c"
  show "a = c"
  proof (rule bit_word_eqI)
    fix n assume "n < LENGTH(8)"
    then have "n \<in> set [0..<8]" by simp
    with h show "bit a n = bit c n" by (simp add: byte_bits_def map_eq_conv)
  qed
qed

lemma bm_bits_inj: "length x = length y \<Longrightarrow> bm_bits x = bm_bits y \<Longrightarrow> x = y"
proof (induction x arbitrary: y)
  case Nil
  then show ?case by simp
next
  case (Cons a x)
  then obtain c y' where y: "y = c # y'" by (cases y) auto
  with Cons.prems have "byte_bits a @ bm_bits x = byte_bits c @ bm_bits y'" by (simp add: bm_bits_Cons)
  then have "byte_bits a = byte_bits c" "bm_bits x = bm_bits y'" by simp_all
  with Cons y show ?case by (auto dest: byte_bits_inj)
qed

lemma no_True_eq: "True \<notin> set xs \<Longrightarrow> True \<notin> set ys \<Longrightarrow> length xs = length ys \<Longrightarrow> xs = ys"
proof (induction xs arbitrary: ys)
  case Nil
  then show ?case by simp
next
  case (Cons a xs)
  then show ?case by (cases ys) auto
qed

lemma equality_lane:
  assumes fx: "bm_fits b x" and fy: "bm_fits b y"
  shows "equality (lane_bits b x) (lane_bits b y) \<longleftrightarrow> x = y"
proof
  assume e: "equality (lane_bits b x) (lane_bits b y)"
  have l: "length x = length y" using fx fy by (simp add: bm_fits_def)
  have t: "take b (bm_bits x) = take b (bm_bits y)" using e by (simp add: equality_def lane_bits_def)
  have "drop b (bm_bits x) = drop b (bm_bits y)"
    using fx fy l by (intro no_True_eq) (simp_all add: bm_fits_def)
  with t have "bm_bits x = bm_bits y" by (metis append_take_drop_id)
  with l show "x = y" by (rule bm_bits_inj)
qed (simp add: equality_def)

lemma comp_lane:
  assumes "lane_ok cfg f x y"
  shows "(if comparator f = DICE
          then to_arith (dice_coefficient (lane_bits (bitsize f) x) (lane_bits (bitsize f) y)
                  (lane_unit (size_hw cfg) (hw x)) (lane_unit (size_hw cfg) (hw y)) (unat (dice_prec cfg)))
          else to_arith (of_bool (equality (lane_bits (bitsize f) x) (lane_bits (bitsize f) y))) * 2 ^ unat (dice_prec cfg)) =
         of_nat (clear_comp cfg f x y)"
proof (cases "comparator f = DICE")
  case True
  with assms have "dice_coefficient (lane_bits (bitsize f) x) (lane_bits (bitsize f) y)
                  (lane_unit (size_hw cfg) (hw x)) (lane_unit (size_hw cfg) (hw y)) (unat (dice_prec cfg)) =
                   clear_dice (unat (dice_prec cfg)) x y"
    by (intro dice_lane) (simp_all add: lane_ok_def)
  with True show ?thesis by (simp add: clear_comp_def to_arith_def)
next
  case False
  with assms have "equality (lane_bits (bitsize f) x) (lane_bits (bitsize f) y) \<longleftrightarrow> x = y"
    by (intro equality_lane) (simp_all add: lane_ok_def)
  with False show ?thesis by (simp add: clear_comp_def to_arith_def)
qed

lemma joint_inputs_shares:
  assumes "joint_inputs st ci si" and "map_of (cfg_fields (circ_cfg st)) i = Some f"
  shows "client_share st i = Inr (client_value_share (sc_nvals st) (circ_cfg st) f (the (map_of (client_record ci) i))) \<and>
         server_share st i = Inr (server_value_share (sc_nvals st) (circ_cfg st) f (the (map_of (database si) i)))"
  using assms map_of_SomeD [OF assms(2)]
  by (auto simp: joint_inputs_def list_all_iff client_share_def server_share_def real_share_def)

lemma field_weight_lanes:
  assumes ji: "joint_inputs st ci si"
    and l: "map_of (cfg_fields (circ_cfg st)) il = Some fl"
    and r: "map_of (cfg_fields (circ_cfg st)) ir = Some fr"
    and cb: "comparator fl = comparator fr" "bitsize fl = bitsize fr"
    and len: "sc_nvals st \<le> length (the (map_of (database si) ir))"
    and ok: "\<forall>j < sc_nvals st. lane_ok (circ_cfg st) fl
               (entry_value (bitsize fl) (the (map_of (client_record ci) il)))
               (entry_value (bitsize fl) (the (map_of (database si) ir) ! j))"
  shows "field_weight st il ir =
           Inr (map (\<lambda>j. clear_field_weight (circ_cfg st) fl fr (the (map_of (client_record ci) il))
                           (the (map_of (database si) ir) ! j)) [0..<sc_nvals st])"
proof -
  let ?n = "sc_nvals st" and ?cfg = "circ_cfg st"
  let ?ex = "the (map_of (client_record ci) il)" and ?es = "the (map_of (database si) ir)"
  let ?c = "client_value_share ?n ?cfg fl ?ex" and ?v = "server_value_share ?n ?cfg fr ?es"
  let ?b = "bitsize fl" and ?p = "unat (dice_prec ?cfg)" and ?s = "size_hw ?cfg"
  have cs: "client_share st il = Inr ?c" using joint_inputs_shares [OF ji l] by simp
  have ss: "server_share st ir = Inr ?v" using joint_inputs_shares [OF ji r] by simp
  let ?wt = "map (\<lambda>(dc, ds). weight_r ?cfg fl fr * (dc * ds)) (zip (vs_delta ?c) (vs_delta ?v))"
  let ?cp = "map (\<lambda>j. if comparator fl = DICE
          then to_arith (dice_coefficient (lane_bits ?b (entry_value ?b ?ex)) (lane_bits ?b (entry_value ?b (?es ! j)))
                  (lane_unit ?s (hw (entry_value ?b ?ex))) (lane_unit ?s (hw (entry_value ?b (?es ! j)))) ?p)
          else to_arith (of_bool (equality (lane_bits ?b (entry_value ?b ?ex)) (lane_bits ?b (entry_value ?b (?es ! j))))) * 2 ^ ?p)
        [0..<?n]"
  have comp: "(if comparator fl = DICE then dice_lanes ?p ?c ?v else Inr (equality_lanes ?p ?c ?v)) = Inr ?cp"
    using len cb
    by (auto simp: dice_lanes_def equality_lanes_def client_value_share_def server_value_share_def
        Let_def list_eq_iff_nth_eq min_def)
  have fw: "field_weight st il ir = Inr (map (\<lambda>(x, y). \<lparr>fw = x * y, w = x\<rparr>) (zip ?wt ?cp))"
    using l r cb cs ss comp by (simp add: field_weight_def map_at_def Let_def)
  have "map (\<lambda>(x, y). \<lparr>fw = x * y, w = x\<rparr>) (zip ?wt ?cp) =
        map (\<lambda>j. clear_field_weight ?cfg fl fr ?ex (?es ! j)) [0..<?n]"
  proof (rule nth_equalityI)
    show "length (map (\<lambda>(x, y). \<lparr>fw = x * y, w = x\<rparr>) (zip ?wt ?cp)) =
          length (map (\<lambda>j. clear_field_weight ?cfg fl fr ?ex (?es ! j)) [0..<?n])"
      using len by (simp add: client_value_share_def server_value_share_def Let_def min_def)
  next
    fix j assume "j < length (map (\<lambda>(x, y). \<lparr>fw = x * y, w = x\<rparr>) (zip ?wt ?cp))"
    then have j: "j < ?n" using len
      by (simp add: client_value_share_def server_value_share_def Let_def min_def split: if_splits)
    have e: "entry_value (bitsize fr) (?es ! j) = entry_value ?b (?es ! j)" using cb by simp
    have lo: "lane_ok ?cfg fl (entry_value ?b ?ex) (entry_value ?b (?es ! j))" using ok j by simp
    have j0: "j < ?n - 0" using j by simp
    have "?cp ! j = of_nat (clear_comp ?cfg fl (entry_value ?b ?ex) (entry_value ?b (?es ! j)))"
      unfolding nth_map_upt [OF j0] add_0 by (rule comp_lane [OF lo])
    then show "map (\<lambda>(x, y). \<lparr>fw = x * y, w = x\<rparr>) (zip ?wt ?cp) ! j =
               map (\<lambda>j. clear_field_weight ?cfg fl fr ?ex (?es ! j)) [0..<?n] ! j"
      using j len e
      by (simp add: clear_field_weight_def client_value_share_def server_value_share_def Let_def min_def)
  qed
  with fw show ?thesis by simp
qed

subsection \<open>Lane by lane, the circuit computes the evaluator\<close>

lemma map_of_clear_row: "map_of (clear_row db j) k = map_option (\<lambda>col. col ! j) (map_of db k)"
  by (induction db) (auto simp: clear_row_def)

lemma lanes_okD:
  assumes "lanes_ok st ci si"
    and "map_of (cfg_fields (circ_cfg st)) il = Some fl" and "map_of (cfg_fields (circ_cfg st)) ir = Some fr"
    and "comparator fl = comparator fr" and "bitsize fl = bitsize fr"
  shows "map_of (database si) ir \<noteq> None \<and> sc_nvals st \<le> length (the (map_of (database si) ir)) \<and>
        (\<forall>j < sc_nvals st. lane_ok (circ_cfg st) fl
            (entry_value (bitsize fl) (the (map_of (client_record ci) il)))
            (entry_value (bitsize fl) (the (map_of (database si) ir) ! j)))"
  using assms map_of_SomeD [OF assms(2)] map_of_SomeD [OF assms(3)] unfolding lanes_ok_def by fast

lemma pair_lanes:
  assumes ji: "joint_inputs st ci si" and ok: "lanes_ok st ci si"
    and l: "map_of (cfg_fields (circ_cfg st)) il = Some fl" and r: "map_of (cfg_fields (circ_cfg st)) ir = Some fr"
    and cb: "comparator fl = comparator fr" "bitsize fl = bitsize fr"
  shows "field_weight st il ir =
           Inr (map (\<lambda>j. clear_pair (circ_cfg st) (client_record ci) (clear_row (database si) j) (il, ir))
                    [0..<sc_nvals st])"
proof -
  from lanes_okD [OF ok l r cb] obtain col where col: "map_of (database si) ir = Some col"
    by auto
  have "field_weight st il ir =
           Inr (map (\<lambda>j. clear_field_weight (circ_cfg st) fl fr (the (map_of (client_record ci) il))
                           (the (map_of (database si) ir) ! j)) [0..<sc_nvals st])"
    using lanes_okD [OF ok l r cb] by (intro field_weight_lanes [OF ji l r cb]) simp_all
  then show ?thesis
    using l r col by (simp add: clear_pair_def map_of_clear_row)
qed

lemma sum_lanes_map:
  "sum_lanes n (map (\<lambda>k. map (\<lambda>j. F k j) [0..<n]) ks) =
   map (\<lambda>j. sum_field_weights (map (\<lambda>k. F k j) ks)) [0..<n]"
  by (simp add: sum_lanes_def comp_def)

lemma group_pair_kinds:
  assumes g: "group_fields_ok fs f0 grp" and "il \<in> set grp" and "ir \<in> set grp"
  shows "\<exists>fl fr. map_of fs il = Some fl \<and> map_of fs ir = Some fr \<and>
           comparator fl = comparator fr \<and> bitsize fl = bitsize fr"
proof -
  from g assms(2) obtain fl where "map_of fs il = Some fl" "comparator fl = comparator f0" "bitsize fl = bitsize f0"
    by (auto simp: group_fields_ok_def split: option.splits)
  moreover from g assms(3) obtain fr where "map_of fs ir = Some fr" "comparator fr = comparator f0" "bitsize fr = bitsize f0"
    by (auto simp: group_fields_ok_def split: option.splits)
  ultimately show ?thesis by auto
qed

lemma perm_weight_lanes:
  assumes ji: "joint_inputs st ci si" and ok: "lanes_ok st ci si"
    and g: "group_fields_ok (cfg_fields (circ_cfg st)) f0 grp" and p: "perm \<in> set (perm_loop grp)"
  shows "perm_weight st grp perm =
           Inr (map (\<lambda>j. sum_field_weights (map (clear_pair (circ_cfg st) (client_record ci) (clear_row (database si) j))
                                              (zip grp perm))) [0..<sc_nvals st])"
proof -
  let ?L = "\<lambda>q. map (\<lambda>j. clear_pair (circ_cfg st) (client_record ci) (clear_row (database si) j) q) [0..<sc_nvals st]"
  have sp: "set perm = set grp" using perm_loop_mset [OF p] by (metis set_mset_mset)
  have "field_weight st (fst q) (snd q) = Inr (?L q)" if "q \<in> set (zip grp perm)" for q
  proof -
    obtain il ir where q: "q = (il, ir)" by fastforce
    with that sp have "il \<in> set grp" "ir \<in> set grp" by (auto dest: set_zip_leftD set_zip_rightD)
    then obtain fl fr where "map_of (cfg_fields (circ_cfg st)) il = Some fl"
      "map_of (cfg_fields (circ_cfg st)) ir = Some fr" "comparator fl = comparator fr" "bitsize fl = bitsize fr"
      using group_pair_kinds [OF g] by blast
    with q show ?thesis using pair_lanes [OF ji ok] by simp
  qed
  then have "map_sum (\<lambda>(il, ir). field_weight st il ir) (zip grp perm) = Inr (map ?L (zip grp perm))"
    by (intro map_sum_all_Inr) (simp add: split_def)
  then show ?thesis by (simp add: perm_weight_def sum_lanes_map)
qed

lemma first_max_index:
  assumes "qs \<noteq> []"
  shows "\<exists>p < length qs. first_max qs = qs ! p \<and> (\<forall>j < length qs. qrank (qs ! j) \<le> qrank (qs ! p)) \<and>
           (\<forall>j < p. qrank (qs ! j) < qrank (qs ! p))"
proof -
  obtain x xs where qs: "qs = x # xs" using assms by (cases qs) auto
  show ?thesis using foldl_key_select_first_max [where k = qrank and x = x and xs = xs] qs by (simp add: first_max_def)
qed

lemma first_max_unique:
  fixes k :: "'a \<Rightarrow> 'b::linorder"
  assumes "i < length xs" "p < length xs"
    and "\<forall>j < length xs. k (xs ! j) \<le> k (xs ! i)" "\<forall>j < i. k (xs ! j) < k (xs ! i)"
    and "\<forall>j < length xs. k (xs ! j) \<le> k (xs ! p)" "\<forall>j < p. k (xs ! j) < k (xs ! p)"
  shows "i = p"
  using assms by (metis linorder_neqE_nat not_less)

lemma max_quotient_first_max_eq:
  assumes ne: "qs \<noteq> []" and ok: "quotients_ok qs"
  shows "max_quotient qs = Some (first_max qs)"
proof -
  have pos: "\<forall>a\<in>set qs. 0 < unat (den a)" and ov: "\<forall>a\<in>set qs. \<forall>b\<in>set qs. unat (num a) * unat (den b) < 2 ^ 32"
    using ok by (auto simp: quotients_ok_def)
  obtain i where i: "i < length qs" "max_quotient qs = Some (qs ! i)"
    and ile: "\<forall>j < length qs. qrank (qs ! j) \<le> qrank (qs ! i)" and ilt: "\<forall>j < i. qrank (qs ! j) < qrank (qs ! i)"
    using max_quotient_first_max [OF ne pos ov] by blast
  obtain p where p: "p < length qs" "first_max qs = qs ! p"
    and ple: "\<forall>j < length qs. qrank (qs ! j) \<le> qrank (qs ! p)" and plt: "\<forall>j < p. qrank (qs ! j) < qrank (qs ! p)"
    using first_max_index [OF ne] by blast
  have "i = p" by (rule first_max_unique [OF i(1) p(1) ile ilt ple plt])
  with i p show ?thesis by simp
qed

lemma best_group_lanes:
  assumes ji: "joint_inputs st ci si" and ok: "lanes_ok st ci si"
    and g: "group_fields_ok (cfg_fields (circ_cfg st)) f0 grp"
    and q: "\<forall>j < sc_nvals st. quotients_ok (perm_quotients (circ_cfg st) (client_record ci) (clear_row (database si) j) grp)"
  shows "best_group_weight st grp =
           Inr (map (\<lambda>j. clear_group_weight (circ_cfg st) (client_record ci) (clear_row (database si) j) grp)
                    [0..<sc_nvals st])"
proof -
  let ?cfg = "circ_cfg st" and ?rec = "client_record ci" and ?n = "sc_nvals st"
  let ?row = "\<lambda>j. clear_row (database si) j"
  let ?S = "\<lambda>perm j. sum_field_weights (map (clear_pair ?cfg ?rec (?row j)) (zip grp perm))"
  have pws: "map_sum (perm_weight st grp) (perm_loop grp) = Inr (map (\<lambda>perm. map (?S perm) [0..<?n]) (perm_loop grp))"
    by (intro map_sum_all_Inr) (rule perm_weight_lanes [OF ji ok g])
  have lane: "map (\<lambda>q. q ! j) (map (\<lambda>perm. map (?S perm) [0..<?n]) (perm_loop grp)) =
              perm_quotients ?cfg ?rec (?row j) grp" if "j < ?n" for j
    using that by (simp add: perm_quotients_def comp_def)
  have mq: "max_quotient (perm_quotients ?cfg ?rec (?row j) grp) = Some (first_max (perm_quotients ?cfg ?rec (?row j) grp))"
    if "j < ?n" for j
    using q that perm_loop_ne [of grp] by (intro max_quotient_first_max_eq) (simp_all add: perm_quotients_def)
  have "map_sum (\<lambda>j. case max_quotient (map (\<lambda>q. q ! j) (map (\<lambda>perm. map (?S perm) [0..<?n]) (perm_loop grp))) of
                      None \<Rightarrow> Inl Undefined | Some q \<Rightarrow> Inr q) [0..<?n] =
        Inr (map (\<lambda>j. first_max (perm_quotients ?cfg ?rec (?row j) grp)) [0..<?n])"
  proof (rule map_sum_all_Inr)
    fix j assume "j \<in> set [0..<?n]"
    then have j: "j < ?n" by simp
    show "(case max_quotient (map (\<lambda>q. q ! j) (map (\<lambda>perm. map (?S perm) [0..<?n]) (perm_loop grp))) of
             None \<Rightarrow> Inl Undefined | Some q \<Rightarrow> Inr q) = Inr (first_max (perm_quotients ?cfg ?rec (?row j) grp))"
      unfolding lane [OF j] mq [OF j] by simp
  qed
  with pws show ?thesis
    by (simp add: best_group_weight_def clear_group_weight_def comp_def Let_def)
qed

lemma fold_group_step_map:
  "distinct (concat gs) \<Longrightarrow> (\<forall>g\<in>set gs. set g \<subseteq> set nx) \<Longrightarrow>
   (\<forall>g\<in>set gs. best_group_weight st g = Inr (B g)) \<Longrightarrow>
   fold_sum (group_step st) gs (acc, nx) = Inr (acc @ map B gs, filter (\<lambda>i. i \<notin> set (concat gs)) nx)"
proof (induction gs arbitrary: acc nx)
  case Nil
  then show ?case by simp
next
  case (Cons g gs)
  have e: "erase_group g nx = Inr (filter (\<lambda>i. i \<notin> set g) nx)"
    using Cons.prems(1,2) by (intro erase_group_Inr) auto
  let ?nx = "filter (\<lambda>i. i \<notin> set g) nx"
  have sub: "\<forall>g'\<in>set gs. set g' \<subseteq> set ?nx"
    using Cons.prems(1,2) by fastforce
  have "fold_sum (group_step st) gs (acc @ [B g], ?nx) =
      Inr (acc @ [B g] @ map B gs, filter (\<lambda>i. i \<notin> set (concat gs)) ?nx)"
    using Cons.IH [of ?nx "acc @ [B g]"] Cons.prems(1,3) sub by auto
  moreover have "filter (\<lambda>i. i \<notin> set (concat gs)) ?nx = filter (\<lambda>i. i \<notin> set (concat (g # gs))) nx"
    by (simp add: filter_filter conj_commute)
  moreover have "group_step st (acc, nx) g = Inr (acc @ [B g], ?nx)"
    using Cons.prems(3) e by (simp add: group_step_def)
  ultimately show ?case by simp
qed

lemma groups_okD:
  assumes "groups_ok fs gs" and "g \<in> set gs"
  shows "\<exists>f0. map_of fs (hd g) = Some f0 \<and> group_fields_ok fs f0 g"
  using assms by (auto simp: groups_ok_def split: option.splits)

lemma group_fields_keys: "group_fields_ok fs f0 g \<Longrightarrow> set g \<subseteq> set (map fst fs)"
  by (fastforce simp: group_fields_ok_def dest: map_of_Some_key split: option.splits)

lemma link_scores_lanes:
  assumes ji: "joint_inputs st ci si" and ok: "lanes_ok st ci si"
    and gs: "groups_ok (cfg_fields (circ_cfg st)) (exchange_groups (circ_cfg st))"
    and q: "\<forall>g\<in>set (exchange_groups (circ_cfg st)). \<forall>j < sc_nvals st.
              quotients_ok (perm_quotients (circ_cfg st) (client_record ci) (clear_row (database si) j) g)"
  shows "link_scores st = Inr (clear_scores (circ_cfg st) ci si (sc_nvals st))"
proof -
  let ?cfg = "circ_cfg st" and ?rec = "client_record ci" and ?n = "sc_nvals st"
  let ?fs = "cfg_fields ?cfg" and ?gs = "exchange_groups ?cfg"
  let ?row = "\<lambda>j. clear_row (database si) j"
  let ?B = "\<lambda>g. map (\<lambda>j. clear_group_weight ?cfg ?rec (?row j) g) [0..<?n]"
  let ?R = "\<lambda>i. map (\<lambda>j. clear_pair ?cfg ?rec (?row j) (i, i)) [0..<?n]"
  let ?nx = "filter (\<lambda>i. i \<notin> set (concat ?gs)) (map fst ?fs)"
  have dc: "distinct (concat ?gs)" using gs by (simp add: groups_ok_def)
  have sub: "\<forall>g\<in>set ?gs. set g \<subseteq> set (map fst ?fs)"
    using groups_okD [OF gs] group_fields_keys by blast
  have bgw: "\<forall>g\<in>set ?gs. best_group_weight st g = Inr (?B g)"
  proof
    fix g assume g: "g \<in> set ?gs"
    then obtain f0 where "group_fields_ok ?fs f0 g" using groups_okD [OF gs] by blast
    then show "best_group_weight st g = Inr (?B g)" using q g by (intro best_group_lanes [OF ji ok]) auto
  qed
  have fold: "fold_sum (group_step st) ?gs ([], map fst ?fs) = Inr (map ?B ?gs, ?nx)"
    using fold_group_step_map [OF dc sub bgw, of "[]"] by simp
  have rest: "map_sum (\<lambda>i. field_weight st i i) ?nx = Inr (map ?R ?nx)"
  proof (rule map_sum_all_Inr)
    fix i assume "i \<in> set ?nx"
    then have "i \<in> set (map fst ?fs)" by simp
    then obtain f where "map_of ?fs i = Some f" by (blast dest: key_map_of_Some)
    then show "field_weight st i i = Inr (?R i)" using pair_lanes [OF ji ok] by simp
  qed
  have "sum_lanes ?n (map ?B ?gs @ map ?R ?nx) = clear_scores ?cfg ci si ?n"
    by (auto simp: sum_lanes_def clear_scores_def clear_score_def Let_def comp_def intro!: map_cong)
  with fold rest show ?thesis by (simp add: link_scores_def)
qed

subsection \<open>From the configuration and the inputs to the lane conditions\<close>

lemma unat_dice_prec: "h \<le> 15 \<Longrightarrow> unat ((16 - 1 - of_nat h) :: size_t) = 15 - h"
proof -
  assume h: "h \<le> 15"
  then have "(16 - 1 - of_nat h :: size_t) = of_nat (15 - h)" by (simp add: of_nat_diff)
  moreover have "15 - h < 2 ^ 64" by simp
  ultimately show ?thesis by (simp add: unat_of_nat_small)
qed

lemma max_bm_size_acc:
  "m \<le> foldl (\<lambda>m f. if comparator (snd f) = DICE then max m (bitsize (snd f)) else m) m fs"
  by (induction fs arbitrary: m) (auto intro: order_trans [OF max.cobounded1])

lemma max_bm_size_ge:
  "(i, f) \<in> set fs \<Longrightarrow> comparator f = DICE \<Longrightarrow>
   bitsize f \<le> foldl (\<lambda>m f. if comparator (snd f) = DICE then max m (bitsize (snd f)) else m) m fs"
proof (induction fs arbitrary: m)
  case Nil
  then show ?case by simp
next
  case (Cons x fs)
  show ?case
  proof (cases "x = (i, f)")
    case True
    then show ?thesis using Cons.prems max_bm_size_acc [of "max m (bitsize f)" fs] by simp
  next
    case False
    then show ?thesis using Cons by simp
  qed
qed

lemma lane_ok_fit:
  assumes h: "hw_size mbs \<le> 15" and s: "size_hw cfg = hw_size mbs"
    and p: "unat (dice_prec cfg) = 15 - hw_size mbs"
    and b: "comparator f = DICE \<Longrightarrow> bitsize f \<le> mbs"
    and fx: "bm_fits (bitsize f) x" and fy: "bm_fits (bitsize f) y"
  shows "lane_ok cfg f x y"
proof -
  let ?h = "hw_size mbs"
  have "8 * length x < 2 ^ 32 \<and> 8 * length y < 2 ^ 32 \<and>
        popcnt x < 2 ^ size_hw cfg \<and> popcnt y < 2 ^ size_hw cfg \<and>
        popcnt_and x y * 2 ^ (unat (dice_prec cfg) + 1) < 2 ^ 16 \<and> popcnt x + popcnt y < 2 ^ 16"
    if d: "comparator f = DICE"
  proof -
    have bm: "bitsize f \<le> mbs" by (rule b [OF d])
    have m: "mbs < 2 ^ ?h" by (rule hw_size_fits) simp
    have h15: "(2::nat) ^ ?h \<le> 2 ^ 15" using power_increasing [OF h, of "2::nat"] by simp
    have px: "popcnt x \<le> mbs" using popcnt_le [OF fx] bm by simp
    have py: "popcnt y \<le> mbs" using popcnt_le [OF fy] bm by simp
    have lx: "8 * length x \<le> mbs + 7" using fx bm by (simp add: bm_fits_def bitbytes_def)
    have ly: "8 * length y \<le> mbs + 7" using fy bm by (simp add: bm_fits_def bitbytes_def)
    have pa: "popcnt_and x y < 2 ^ ?h" using popcnt_and_le [of x y] px m by simp
    have "unat (dice_prec cfg) + 1 = 16 - ?h" using p h by simp
    then have e: "(2::nat) ^ (unat (dice_prec cfg) + 1) = 2 ^ (16 - ?h)" by (simp only:)
    have "popcnt_and x y * 2 ^ (16 - ?h) < 2 ^ ?h * 2 ^ (16 - ?h)"
      using pa by simp
    also have "\<dots> = 2 ^ 16" using h by (simp flip: power_add)
    finally have a: "popcnt_and x y * 2 ^ (unat (dice_prec cfg) + 1) < 2 ^ 16" by (simp only: e)
    show ?thesis using px py lx ly m h15 a s by simp
  qed
  with fx fy show ?thesis by (simp add: lane_ok_def)
qed

lemma cfg_facts:
  assumes cfg: "make_epilink_config fs gs t tt mm bl = Inr cfg" and h: "hw_size (max_bm_size fs) \<le> 15"
  shows "cfg_fields cfg = fs \<and> exchange_groups cfg = gs \<and> groups_ok fs gs \<and>
         size_hw cfg = hw_size (max_bm_size fs) \<and> unat (dice_prec cfg) = 15 - hw_size (max_bm_size fs)"
  using cfg unat_dice_prec [OF h] by (simp add: make_epilink_config_Inr Let_def)

lemma lanes_ok_inputs:
  assumes cfg: "make_epilink_config fs gs t tt mm bl = Inr cfg" and h: "hw_size (max_bm_size fs) \<le> 15"
    and cc: "circ_cfg st = cfg"
    and sok: "server_input_ok fs si (sc_nvals st)" and fit: "inputs_fit fs ci si"
  shows "lanes_ok st ci si"
proof -
  have c: "cfg_fields cfg = fs" "size_hw cfg = hw_size (max_bm_size fs)"
    "unat (dice_prec cfg) = 15 - hw_size (max_bm_size fs)"
    using cfg_facts [OF cfg h] by simp_all
  have lo: "lane_ok cfg fl x y"
    if "(il, fl) \<in> set fs" "bm_fits (bitsize fl) x" "bm_fits (bitsize fl) y" for il fl x y
  proof (rule lane_ok_fit [OF h c(2,3) _ that(2,3)])
    assume "comparator fl = DICE"
    with that(1) show "bitsize fl \<le> max_bm_size fs"
      unfolding max_bm_size_def by (rule max_bm_size_ge)
  qed
  show ?thesis
    unfolding lanes_ok_def cc c(1)
  proof (intro ballI impI, clarify)
    fix il fl ir fr
    assume l: "(il, fl) \<in> set fs" and r: "(ir, fr) \<in> set fs"
      and k: "comparator fl = comparator fr" "bitsize fl = bitsize fr"
    obtain es where es: "map_of (database si) ir = Some es" "sc_nvals st \<le> length es"
      using sok r by (auto simp: server_input_ok_def list_all_iff split: option.splits)
    have fx: "bm_fits (bitsize fl) (entry_value (bitsize fl) (the (map_of (client_record ci) il)))"
      using fit l by (auto simp: inputs_fit_def list_all_iff)
    have fy: "bm_fits (bitsize fl) (entry_value (bitsize fl) e)" if "e \<in> set es" for e
      using fit r es(1) that k(2) by (auto simp: inputs_fit_def list_all_iff)
    show "map_of (database si) ir \<noteq> None \<and> sc_nvals st \<le> length (the (map_of (database si) ir)) \<and>
          (\<forall>j < sc_nvals st. lane_ok cfg fl (entry_value (bitsize fl) (the (map_of (client_record ci) il)))
                                        (entry_value (bitsize fl) (the (map_of (database si) ir) ! j)))"
      using es fx fy lo [OF l] by auto
  qed
qed

lemma both_inputs_joint:
  assumes d: "distinct (map fst (cfg_fields (circ_cfg st0)))"
    and k: "map fst (ins st0) = map fst (cfg_fields (circ_cfg st0))"
    and r: "set_both_inputs st0 ci si = Inr st"
  shows "joint_inputs st ci si \<and> circ_cfg st = circ_cfg st0 \<and> sc_nvals st = nvals32 (client_nvals ci) \<and>
         0 < sc_nvals st \<and> server_input_ok (cfg_fields (circ_cfg st0)) si (sc_nvals st) \<and>
         const_idx st = [0..<sc_nvals st] \<and>
         const_threshold st = double_to_circ (threshold (circ_cfg st0) * 2 ^ unat (dice_prec (circ_cfg st0))) \<and>
         const_tthreshold st = double_to_circ (tthreshold (circ_cfg st0) * 2 ^ unat (dice_prec (circ_cfg st0)))"
proof -
  let ?n = "nvals32 (client_nvals ci)" and ?fs = "cfg_fields (circ_cfg st0)" and ?cfg = "circ_cfg st0"
  from r set_both_inputs_Inr [OF d] have n: "0 < ?n" and sok: "server_input_ok ?fs si ?n"
    and st: "st = (set_constants st0 ?n)\<lparr>ins :=
        map (\<lambda>(k, s). (k, case map_of ?fs k of
               Some f \<Rightarrow> s\<lparr>client_in := Real (client_value_share ?n ?cfg f (the (map_of (client_record ci) k))),
                         server_in := Real (server_value_share ?n ?cfg f (the (map_of (database si) k)))\<rparr>
             | None \<Rightarrow> s)) (ins st0),
        is_input_set := True\<rparr>"
    by blast+
  have ji: "map_of (ins st) i =
        Some \<lparr>client_in = Real (client_value_share ?n ?cfg f (the (map_of (client_record ci) i))),
              server_in = Real (server_value_share ?n ?cfg f (the (map_of (database si) i)))\<rparr>"
    if "(i, f) \<in> set ?fs" for i f
  proof -
    have f: "map_of ?fs i = Some f" using d that by simp
    have "i \<in> set (map fst (ins st0))" unfolding k using that by force
    then obtain s where "map_of (ins st0) i = Some s" by (blast dest: key_map_of_Some)
    then show ?thesis using st f by (simp add: map_of_map_case input_shares_upd2)
  qed
  have "joint_inputs st ci si"
    using ji st by (auto simp: joint_inputs_def list_all_iff)
  then show ?thesis using st n sok by (simp add: set_constants_idx) (simp add: set_constants_def Let_def)
qed

subsection \<open>Refinement\<close>

lemma refinement_frame:
  assumes cfg: "make_epilink_config fs gs t tt mm bl = Inr cfg" and d: "distinct (map fst fs)"
    and h: "hw_size (max_bm_size fs) \<le> 15"
    and r: "set_both_inputs (make_sel_circuit cfg) ci si = Inr st" and fit: "inputs_fit fs ci si"
  shows "joint_inputs st ci si \<and> lanes_ok st ci si \<and> circ_cfg st = cfg \<and>
         sc_nvals st = nvals32 (client_nvals ci) \<and> 0 < sc_nvals st \<and> const_idx st = [0..<sc_nvals st] \<and>
         const_threshold st = double_to_circ (threshold cfg * 2 ^ unat (dice_prec cfg)) \<and>
         const_tthreshold st = double_to_circ (tthreshold cfg * 2 ^ unat (dice_prec cfg))"
proof -
  have c: "cfg_fields cfg = fs" using cfg_facts [OF cfg h] by simp
  have d': "distinct (map fst (cfg_fields (circ_cfg (make_sel_circuit cfg))))"
    using d c by (simp add: make_sel_circuit_def)
  have k: "map fst (ins (make_sel_circuit cfg)) = map fst (cfg_fields (circ_cfg (make_sel_circuit cfg)))"
    using make_sel_circuit_keys [of cfg] by (simp add: make_sel_circuit_def)
  have cc0: "circ_cfg (make_sel_circuit cfg) = cfg" by (simp add: make_sel_circuit_def)
  have J: "joint_inputs st ci si \<and> circ_cfg st = cfg \<and> sc_nvals st = nvals32 (client_nvals ci) \<and>
         0 < sc_nvals st \<and> server_input_ok fs si (sc_nvals st) \<and> const_idx st = [0..<sc_nvals st] \<and>
         const_threshold st = double_to_circ (threshold cfg * 2 ^ unat (dice_prec cfg)) \<and>
         const_tthreshold st = double_to_circ (tthreshold cfg * 2 ^ unat (dice_prec cfg))"
    using both_inputs_joint [OF d' k r] unfolding cc0 c .
  then have j: "joint_inputs st ci si" "circ_cfg st = cfg"
    "sc_nvals st = nvals32 (client_nvals ci)" "0 < sc_nvals st" "server_input_ok fs si (sc_nvals st)"
    "const_idx st = [0..<sc_nvals st]"
    "const_threshold st = double_to_circ (threshold cfg * 2 ^ unat (dice_prec cfg))"
    "const_tthreshold st = double_to_circ (tthreshold cfg * 2 ^ unat (dice_prec cfg))"
    by blast+
  have "lanes_ok st ci si" by (rule lanes_ok_inputs [OF cfg h j(2) j(5) fit])
  with j show ?thesis by simp
qed

text \<open>
  Claim C19: Refinement of the clear-text evaluator by the circuit's scores: for a
  configuration the constructor accepted without wrap-around (\<open>hw_size\<close> of the largest
  bitmask at most 15), distinct field names, inputs accepted by \<open>set_both_inputs\<close> whose
  values fit their bitsizes, and exchange groups whose permutation quotients have positive
  denominators and no overflowing cross products, lane \<open>j\<close> of the SIMD score
  \<open>(N, D)\<close> of \<open>build_circuit\<close> is exactly the 32-bit evaluator's score of database
  row \<open>j\<close>.
\<close>

theorem link_scores_refines_clear:
  assumes cfg: "make_epilink_config fs gs t tt mm bl = Inr cfg" and d: "distinct (map fst fs)"
    and h: "hw_size (max_bm_size fs) \<le> 15"
    and r: "set_both_inputs (make_sel_circuit cfg) ci si = Inr st" and fit: "inputs_fit fs ci si"
    and q: "\<forall>g\<in>set gs. \<forall>j < nvals32 (client_nvals ci).
              quotients_ok (perm_quotients cfg (client_record ci) (clear_row (database si) j) g)"
  shows "link_scores st = Inr (clear_scores cfg ci si (nvals32 (client_nvals ci)))"
proof -
  from refinement_frame [OF cfg d h r fit] have f: "joint_inputs st ci si" "lanes_ok st ci si"
    "circ_cfg st = cfg" "sc_nvals st = nvals32 (client_nvals ci)" by simp_all
  have g: "groups_ok (cfg_fields cfg) (exchange_groups cfg)" "exchange_groups cfg = gs"
    using cfg_facts [OF cfg h] by simp_all
  show ?thesis using link_scores_lanes [OF f(1,2)] f(3,4) g q by simp
qed

text \<open>
  Claim C20: Under the same conditions, and when the rows' scores have positive
  denominators and no overflowing cross products, \<open>build_circuit\<close> returns exactly the
  evaluator's result: the index of the first row of largest score, its \<open>(N, D)\<close> and the
  two threshold tests.
\<close>

theorem build_circuit_refines_clear:
  assumes cfg: "make_epilink_config fs gs t tt mm bl = Inr cfg" and d: "distinct (map fst fs)"
    and h: "hw_size (max_bm_size fs) \<le> 15"
    and r: "set_both_inputs (make_sel_circuit cfg) ci si = Inr st" and fit: "inputs_fit fs ci si"
    and q: "\<forall>g\<in>set gs. \<forall>j < nvals32 (client_nvals ci).
              quotients_ok (perm_quotients cfg (client_record ci) (clear_row (database si) j) g)"
    and qs: "quotients_ok (clear_scores cfg ci si (nvals32 (client_nvals ci)))"
  shows "build_circuit st = Inr (clear_result cfg ci si (nvals32 (client_nvals ci)))"
proof -
  let ?n = "nvals32 (client_nvals ci)"
  let ?qs = "clear_scores cfg ci si ?n"
  from refinement_frame [OF cfg d h r fit] have f: "joint_inputs st ci si" "lanes_ok st ci si"
    "circ_cfg st = cfg" "sc_nvals st = ?n" "0 < sc_nvals st" "const_idx st = [0..<sc_nvals st]"
    "const_threshold st = double_to_circ (threshold cfg * 2 ^ unat (dice_prec cfg))"
    "const_tthreshold st = double_to_circ (tthreshold cfg * 2 ^ unat (dice_prec cfg))"
    by simp_all
  have g: "groups_ok (cfg_fields cfg) (exchange_groups cfg)" "exchange_groups cfg = gs"
    using cfg_facts [OF cfg h] by simp_all
  have ls: "link_scores st = Inr ?qs" using link_scores_lanes [OF f(1,2)] f(3,4) g q by simp
  have len: "length ?qs = ?n" by (simp add: clear_scores_def)
  have ne: "?qs \<noteq> []" using f(4,5) len by auto
  have pos: "\<forall>a\<in>set ?qs. 0 < unat (den a)" and ov: "\<forall>a\<in>set ?qs. \<forall>b\<in>set ?qs. unat (num a) * unat (den b) < 2 ^ 32"
    using qs by (auto simp: quotients_ok_def)
  obtain i where i: "i < length ?qs" and s: "split_select_target ?qs [0..<length ?qs] = Some (?qs ! i, i)"
    and ile: "\<forall>j < length ?qs. qrank (?qs ! j) \<le> qrank (?qs ! i)" and ilt: "\<forall>j < i. qrank (?qs ! j) < qrank (?qs ! i)"
    using split_select_target_first_max [OF ne pos ov] by blast
  let ?ps = "zip ?qs [0..<?n]"
  have pne: "?ps \<noteq> []" using ne len by (cases ?qs) auto
  obtain x xs where px: "?ps = x # xs" using pne by (cases ?ps) auto
  obtain p where p: "p < length ?ps"
    and fp: "foldl (\<lambda>a b. if qrank (fst a) < qrank (fst b) then b else a) x xs = ?ps ! p"
    and ple: "\<forall>j < length ?ps. qrank (fst (?ps ! j)) \<le> qrank (fst (?ps ! p))"
    and plt: "\<forall>j < p. qrank (fst (?ps ! j)) < qrank (fst (?ps ! p))"
    using foldl_key_select_first_max [where k = "\<lambda>a. qrank (fst a)" and x = x and xs = xs] px by auto
  have p': "p < length ?qs" and ple': "\<forall>j < length ?qs. qrank (?qs ! j) \<le> qrank (?qs ! p)"
    and plt': "\<forall>j < p. qrank (?qs ! j) < qrank (?qs ! p)"
    using p ple plt len by auto
  have "i = p" by (rule first_max_unique [OF i p' ile ilt ple' plt'])
  then have cr: "clear_result cfg ci si ?n =
      \<lparr>res_index = i, res_match = double_to_circ (threshold cfg * 2 ^ unat (dice_prec cfg)) * den (?qs ! i) < num (?qs ! i),
       res_tmatch = double_to_circ (tthreshold cfg * 2 ^ unat (dice_prec cfg)) * den (?qs ! i) < num (?qs ! i),
       res_num = num (?qs ! i), res_den = den (?qs ! i)\<rparr>"
  proof -
    have "?ps ! p = (?qs ! p, p)" using p len by simp
    then have pp: "(x # xs) ! p = (?qs ! p, p)" using px by simp
    show ?thesis using fp px pp \<open>i = p\<close> by (simp add: clear_result_def Let_def)
  qed
  show ?thesis using ls s f(4,6,7,8) len cr by (simp add: build_circuit_def)
qed

end
