(* ===== verification/Server.thy ===== *)
theory Server
  imports DataHandler
begin

text \<open>
  The \<open>LocalServer\<close> constructor that reads its configuration from the
  \<open>ConfigurationHandler\<close> (\<open>src/include/localserver.cpp\<close>, lines 35--53), and the
  server's getters.  The handler itself (\<open>configurationhandler.cpp\<close>) is not in the
  sources: it is modelled as the record of the values the constructor reads, and
  \<open>get_remote_config\<close> as a lookup that fails for an unknown remote.

  The members of \<open>LocalServer\<close> are initialised in their order of declaration
  (\<open>localserver.h\<close>): \<open>m_remote_id\<close> first, by \<open>move(remote_id)\<close>, and
  \<open>m_aby_server\<close> last, whose \<open>EpilinkConfig\<close> reads
  \<open>get_remote_config(remote_id)\<close> from the moved-from argument.  A moved-from
  \<open>std::string\<close> is empty in the standard library the build uses; the model reads
  the remote configuration of that value.
\<close>

record server_config =
  boolean_sharing :: bool
  aby_threads :: nat

record local_config =
  lc_fields :: field_map
  lc_exchange_groups :: "index_set list"

record algorithm_config =
  threshold_match :: rat
  threshold_non_match :: rat

record remote_config =
  rc_matching_mode :: bool

record configuration_handler =
  ch_server_config :: server_config
  ch_local_config :: local_config
  ch_algorithm_config :: algorithm_config
  ch_remote_configs :: "(string \<times> remote_config) list"

definition get_remote_config :: "configuration_handler \<Rightarrow> string \<Rightarrow> sel_error + remote_config" where
  "get_remote_config ch rid = map_at (ch_remote_configs ch) rid"

text \<open>The value a \<open>std::string\<close> holds after it has been moved from.\<close>

definition moved_from :: "string \<Rightarrow> string" where
  "moved_from s = []"

text \<open>
  \<open>LocalServer(remote_id, client_ip, client_port, data_handler, config_handler)\<close>:
  the initialisers in declaration order; the \<open>EpilinkConfig\<close> is built from the
  local fields and exchange groups, the two algorithm thresholds, the remote's
  matching mode and the default bit length 32, and its constructor may throw.
\<close>

definition make_local_server_ch ::
  "string \<Rightarrow> string \<Rightarrow> nat \<Rightarrow> configuration_handler \<Rightarrow> sel_error + local_server" where
  "make_local_server_ch remote_id client_ip client_port ch =
     (let m_remote_id = remote_id;
          remote_id = moved_from remote_id;
          lc = ch_local_config ch; ac = ch_algorithm_config ch
      in bind_sum (get_remote_config ch remote_id) (\<lambda>rc.
         bind_sum (make_epilink_config (lc_fields lc) (lc_exchange_groups lc)
                     (threshold_match ac) (threshold_non_match ac) (rc_matching_mode rc) 32) (\<lambda>cfg.
         Inr \<lparr>ls_remote_id = m_remote_id, ls_client_ip = client_ip, ls_client_port = client_port,
              ls_data = None, ls_engine = make_engine cfg\<rparr>)))"

subsection \<open>Getters\<close>

definition get_id :: "local_server \<Rightarrow> string" where
  "get_id ls = ls_remote_id ls"

definition get_port :: "local_server \<Rightarrow> nat" where
  "get_port ls = ls_client_port ls"

definition get_ip :: "local_server \<Rightarrow> string" where
  "get_ip ls = ls_client_ip ls"

definition get_epilinker :: "local_server \<Rightarrow> sel_engine" where
  "get_epilinker ls = ls_engine ls"

subsection \<open>Lemmas\<close>

lemma make_local_server_ch_unknown:
  "map_of (ch_remote_configs ch) [] = None \<Longrightarrow> make_local_server_ch rid ip port ch = Inl OutOfRange"
  by (simp add: make_local_server_ch_def get_remote_config_def moved_from_def map_at_def Let_def)


text \<open>
  Claim C21: \<open>LocalServer\<close>'s constructor never reads the remote configuration of the
  remote it is constructed for: \<open>remote_id\<close> has been moved into \<open>m_remote_id\<close> when
  \<open>m_aby_server\<close> is initialised, so for a non-empty id, replacing or adding that
  remote's configuration in the handler does not change the outcome.
\<close>

theorem local_server_ignores_remote_config:
  assumes "rid \<noteq> []"
  shows "make_local_server_ch rid ip port (ch\<lparr>ch_remote_configs := (rid, rc) # ch_remote_configs ch\<rparr>) =
         make_local_server_ch rid ip port ch"
  using assms by (simp add: make_local_server_ch_def get_remote_config_def moved_from_def map_at_def)

end
