(* ===== verification/Printing.thy ===== *)
theory Printing
  imports Input
begin

text \<open>
  The stream printers of the inputs (\<open>operator<<\<close> in \<open>src/include/epilink_input.cpp\<close>,
  lines 178--209), as functions to strings: a byte of a value is printed as the
  character with its code (\<open>os << uint8_t\<close>), an empty field as \<open><empty>\<close>, a count
  in decimal.  Reading a field's printout back: \<open>read_entry\<close>, the inverse the round-trip
  theorem is stated with.
\<close>

definition nl :: char where
  "nl = CHR 0x0A"

text \<open>\<open>os << size_t\<close>: the decimal digits, most significant first.\<close>

fun dec_string :: "nat \<Rightarrow> string" where
  "dec_string n = (if n < 10 then [char_of (48 + n)] else dec_string (n div 10) @ [char_of (48 + n mod 10)])"

definition print_entry :: "field_entry \<Rightarrow> string" where
  "print_entry val = (case val of Some bm \<Rightarrow> map (\<lambda>b. char_of (unat b)) bm | None \<Rightarrow> ''<empty>'')"

definition print_field :: "field_name \<times> field_entry \<Rightarrow> string" where
  "print_field f = fst f @ '': '' @ print_entry (snd f)"

definition print_client_input :: "epilink_client_input \<Rightarrow> string" where
  "print_client_input ci =
     ''----- Client Input -----'' @ [nl] @
     concat (map (\<lambda>f. print_field f @ [nl]) (client_record ci)) @
     ''Number of database records: '' @ dec_string (client_nvals ci)"

definition print_column :: "field_name \<Rightarrow> vfield_entry \<Rightarrow> string" where
  "print_column name col =
     concat (map (\<lambda>i. name @ ''['' @ dec_string i @ '']: '' @ print_entry (col ! i) @ [nl]) [0..<length col])"

definition print_server_input :: "epilink_server_input \<Rightarrow> string" where
  "print_server_input si =
     ''----- Server Input -----'' @ [nl] @
     concat (map (\<lambda>(name, col). print_column name col) (database si)) @
     ''Number of database records: '' @ dec_string (server_nvals si)"

subsection \<open>Reading a printout back\<close>

definition read_entry :: "string \<Rightarrow> field_entry" where
  "read_entry s = (if s = ''<empty>'' then None else Some (map (\<lambda>c. of_nat (of_char c)) s))"

subsection \<open>Lemmas\<close>

lemma of_char_of_byte [simp]: "(of_nat (of_char (char_of (unat (b :: byte)))) :: byte) = b"
proof -
  have "unat b < 256" using unsigned_less [of b] by simp
  then show ?thesis by simp
qed

lemma char_of_byte_of_char [simp]: "char_of (unat (of_nat (of_char c) :: byte)) = c"
proof -
  have "of_char c < (256::nat)" by (rule nat_of_char_less_256)
  then have "unat (of_nat (of_char c) :: byte) = of_char c" by (simp add: unat_of_nat)
  then show ?thesis by simp
qed

lemma print_read_bytes: "print_entry (Some (map (\<lambda>c. of_nat (of_char c)) s)) = s"
  by (simp add: print_entry_def comp_def)

lemma read_print_bytes: "map (\<lambda>c. of_nat (of_char c) :: byte) (map (\<lambda>b. char_of (unat b)) bm) = bm"
  unfolding map_map comp_def of_char_of_byte map_ident ..

lemma print_entry_empty:
  "print_entry (Some (map (\<lambda>c. of_nat (of_char c)) ''<empty>'')) = print_entry None"
proof -
  have "print_entry (Some (map (\<lambda>c. of_nat (of_char c)) ''<empty>'')) = ''<empty>''"
    by (rule print_read_bytes)
  also have "\<dots> = print_entry None" unfolding print_entry_def option.case ..
  finally show ?thesis .
qed

text \<open>
  Claim C22: Printing a field entry with \<open>operator<<\<close> loses nothing: reading the
  printout back gives the entry, for every entry except the seven-byte value whose bytes
  spell \<open><empty>\<close>, which prints as an empty field does (\<open>print_entry_empty\<close>).
\<close>

theorem print_entry_roundtrip:
  assumes "e \<noteq> Some (map (\<lambda>c. of_nat (of_char c)) ''<empty>'')"
  shows "read_entry (print_entry e) = e"
proof (cases e)
  case None
  then show ?thesis unfolding None read_entry_def print_entry_def option.case if_P [OF refl] ..
next
  case (Some bm)
  have pe: "print_entry e = map (\<lambda>b. char_of (unat b)) bm"
    unfolding Some print_entry_def option.case ..
  have ne: "map (\<lambda>b. char_of (unat b)) bm \<noteq> ''<empty>''"
  proof
    assume "map (\<lambda>b. char_of (unat b)) bm = ''<empty>''"
    then have "map (\<lambda>c. of_nat (of_char c) :: byte) (map (\<lambda>b. char_of (unat b)) bm) =
               map (\<lambda>c. of_nat (of_char c)) ''<empty>''" by (rule arg_cong)
    then have "bm = map (\<lambda>c. of_nat (of_char c)) ''<empty>''" unfolding read_print_bytes .
    with assms Some show False by blast
  qed
  have "read_entry (print_entry e) = Some (map (\<lambda>c. of_nat (of_char c)) (map (\<lambda>b. char_of (unat b)) bm))"
    unfolding read_entry_def pe if_not_P [OF ne] ..
  then show ?thesis unfolding read_print_bytes Some .
qed

end
