(* ===== verification/Typing.thy ===== *)
theory Typing
  imports Linkage
begin

text \<open>
  The types of the input shares \<open>SELCircuit\<close> creates (\<open>secure_epilinker.cpp\<close>,
  \<open>set_real_client_input\<close>/\<open>set_real_server_input\<close>): a value is a boolean share of
  \<open>bitsize\<close> bits, its Hamming weight (only for \<open>DICE\<close> fields) a boolean share of
  \<open>size_hw\<close> bits, and the presence flag \<open>delta\<close> an arithmetic share holding 0 or 1, each
  on \<open>nvals\<close> lanes.  \<open>share_typed\<close> is this typing; the lemmas show that the input
  setters only create well-typed shares.
\<close>

definition share_typed :: "epilink_config \<Rightarrow> nat \<Rightarrow> ml_field \<Rightarrow> value_share \<Rightarrow> bool" where
  "share_typed cfg n f vs \<longleftrightarrow>
     length (vs_val vs) = n \<and> list_all (\<lambda>l. length l = bitsize f) (vs_val vs) \<and>
     (case vs_hw vs of
        Some h \<Rightarrow> comparator f = DICE \<and> length h = n \<and> list_all (\<lambda>x. x < 2 ^ size_hw cfg) h
      | None \<Rightarrow> comparator f \<noteq> DICE) \<and>
     length (vs_delta vs) = n \<and> list_all (\<lambda>d. d = 0 \<or> d = 1) (vs_delta vs)"

subsection \<open>Lemmas\<close>

lemma length_lane_bits:
  assumes "length v = bitbytes k"
  shows "length (lane_bits k v) = k"
proof -
  have "k \<le> 8 * ((k + 7) div 8)" by presburger
  then show ?thesis using assms by (simp add: lane_bits_def bitbytes_def)
qed

lemma lane_unit_less: "lane_unit k x < 2 ^ k"
  by (simp add: lane_unit_def)

lemma of_bool_01: "(of_bool b :: circ_unit) = 0 \<or> of_bool b = 1"
  by (cases b) simp_all

lemma client_value_share_typed:
  assumes "length (entry_value (bitsize f) e) = bitbytes (bitsize f)"
  shows "share_typed cfg n f (client_value_share n cfg f e)"
proof -
  have "length (lane_bits (bitsize f) (entry_value (bitsize f) e)) = bitsize f"
    by (rule length_lane_bits [OF assms])
  then show ?thesis
    unfolding share_typed_def client_value_share_def Let_def
    by (cases e) (simp_all add: list_all_iff lane_unit_less of_bool_01 del: of_bool_eq)
qed

lemma server_value_share_typed:
  assumes "list_all (\<lambda>e. length (entry_value (bitsize f) e) = bitbytes (bitsize f)) es" and "n \<le> length es"
  shows "share_typed cfg n f (server_value_share n cfg f es)"
proof -
  have "\<forall>e\<in>set (take n es). length (entry_value (bitsize f) e) = bitbytes (bitsize f)"
    using assms(1) by (auto simp: list_all_iff dest: in_set_takeD)
  then show ?thesis
    using assms(2)
    by (auto simp: share_typed_def server_value_share_def Let_def list_all_iff length_lane_bits
        lane_unit_less of_bool_01 min_def)
qed

text \<open>
  The shares of field \<open>i\<close> after a successful \<open>set_both_inputs\<close>: the client's share of
  its record entry and the server's share of its column.
\<close>

lemma set_both_inputs_field:
  assumes d: "distinct (map fst (cfg_fields (circ_cfg st)))"
    and keys: "map fst (ins st) = map fst (cfg_fields (circ_cfg st))"
    and r: "set_both_inputs st ci si = Inr st'" and fi: "(i, f) \<in> set (cfg_fields (circ_cfg st))"
  shows "\<exists>s ce es. map_of (ins st') i = Some s \<and> map_of (client_record ci) i = Some ce \<and>
           map_of (database si) i = Some es \<and>
           length (entry_value (bitsize f) ce) = bitbytes (bitsize f) \<and>
           list_all (\<lambda>e. length (entry_value (bitsize f) e) = bitbytes (bitsize f)) es \<and>
           sc_nvals st' \<le> length es \<and> circ_cfg st' = circ_cfg st \<and>
           client_in s = Real (client_value_share (sc_nvals st') (circ_cfg st) f ce) \<and>
           server_in s = Real (server_value_share (sc_nvals st') (circ_cfg st) f es)"
proof -
  let ?fs = "cfg_fields (circ_cfg st)" and ?n = "nvals32 (client_nvals ci)"
  from r set_both_inputs_Inr [OF d] have cok: "client_input_ok ?fs ci"
    and sok: "server_input_ok ?fs si ?n"
    and st': "st' = (set_constants st ?n)\<lparr>ins :=
        map (\<lambda>(k, s). (k, case map_of ?fs k of
               Some f \<Rightarrow> s\<lparr>client_in := Real (client_value_share ?n (circ_cfg st) f
                                  (the (map_of (client_record ci) k))),
                         server_in := Real (server_value_share ?n (circ_cfg st) f
                                  (the (map_of (database si) k)))\<rparr>
             | None \<Rightarrow> s)) (ins st),
        is_input_set := True\<rparr>"
    by simp_all
  have mf: "map_of ?fs i = Some f" using d fi by (rule map_of_is_SomeI)
  obtain s0 where s0: "map_of (ins st) i = Some s0"
    using key_map_of_Some [of i "ins st"] fi keys by (metis image_eqI fst_conv set_map)
  obtain ce where ce: "map_of (client_record ci) i = Some ce"
    and cl: "length (entry_value (bitsize f) ce) = bitbytes (bitsize f)"
    using cok fi by (auto simp: client_input_ok_def list_all_iff split: option.splits)
  obtain es where es: "map_of (database si) i = Some es" and n: "?n \<le> length es"
    and sl: "list_all (\<lambda>e. length (entry_value (bitsize f) e) = bitbytes (bitsize f)) es"
    using sok fi by (auto simp: server_input_ok_def list_all_iff split: option.splits)
  show ?thesis
    using st' mf s0 ce cl es n sl by (simp add: map_of_map_case set_constants_def Let_def)
qed

text \<open>
  Claim C23: After a successful \<open>set_both_inputs\<close> on a circuit builder whose share map has
  the configured fields as keys, every configured field holds a real client share and a
  real server share, and both are well typed: \<open>nvals\<close> lanes of \<open>bitsize\<close>-bit values,
  \<open>size_hw\<close>-bit Hamming weights exactly for the \<open>DICE\<close> fields, and 0/1 presence flags.
\<close>

theorem set_both_inputs_typed:
  assumes d: "distinct (map fst (cfg_fields (circ_cfg st)))"
    and keys: "map fst (ins st) = map fst (cfg_fields (circ_cfg st))"
    and r: "set_both_inputs st ci si = Inr st'"
  shows "list_all (\<lambda>(i, f). \<exists>s c v. map_of (ins st') i = Some s \<and>
           client_in s = Real c \<and> server_in s = Real v \<and>
           share_typed (circ_cfg st') (sc_nvals st') f c \<and> share_typed (circ_cfg st') (sc_nvals st') f v)
         (cfg_fields (circ_cfg st'))"
proof -
  have "\<exists>s c v. map_of (ins st') i = Some s \<and> client_in s = Real c \<and> server_in s = Real v \<and>
          share_typed (circ_cfg st') (sc_nvals st') f c \<and> share_typed (circ_cfg st') (sc_nvals st') f v"
    if fi: "(i, f) \<in> set (cfg_fields (circ_cfg st))" for i f
  proof -
    obtain s ce es where s: "map_of (ins st') i = Some s" and cl: "length (entry_value (bitsize f) ce) = bitbytes (bitsize f)"
      and sl: "list_all (\<lambda>e. length (entry_value (bitsize f) e) = bitbytes (bitsize f)) es"
      and n: "sc_nvals st' \<le> length es" and cc: "circ_cfg st' = circ_cfg st"
      and c: "client_in s = Real (client_value_share (sc_nvals st') (circ_cfg st) f ce)"
      and v: "server_in s = Real (server_value_share (sc_nvals st') (circ_cfg st) f es)"
      using set_both_inputs_field [OF d keys r fi] by blast
    show ?thesis
      using s c v client_value_share_typed [OF cl] server_value_share_typed [OF sl n] cc by auto
  qed
  moreover have "circ_cfg st' = circ_cfg st"
    using set_both_inputs_joint_ok [OF d keys r] by simp
  ultimately show ?thesis by (auto simp: list_all_iff)
qed

end
