(* ===== verification/Spec2Isabelle.thy ===== *)
theory Spec2Isabelle
  imports Scenarios DataHandler Clear Server Printing Typing
begin

text \<open>
  SecureEpiLinker: a verification development of the record-linkage engine.

  The program computes, for a query record held by a client and a database held by a
  server, the database row of largest weighted similarity score and whether that score
  exceeds a match and a tentative-match threshold, inside a two-party secure
  computation.  Its parts, and how they interact:
  \<^item> \<open>src/include/epilink_input.cpp\<close>: the configuration \<open>EpilinkConfig\<close> (constructor
    with the precision planner and the exchange-group checks, \<open>set_precisions\<close>,
    \<open>set_ideal_precision\<close>), weight rescaling, the server input constructor.
  \<^item> \<open>src/include/secure_epilinker.cpp\<close>: the circuit builder \<open>SELCircuit\<close> (input
    setters, \<open>field_weight\<close>, \<open>best_group_weight\<close>, \<open>build_circuit\<close>) and the engine
    \<open>SecureEpilinker\<close> (\<open>build_circuit\<close>, \<open>run_setup_phase\<close>,
    \<open>run_as_client\<close>/\<open>run_as_server\<close>/\<open>run_as_both\<close>, \<open>run_circuit\<close>, \<open>reset\<close>).
  \<^item> \<open>src/include/datahandler.cpp\<close>: the database cache polled by the server;
    \<open>src/include/localserver.cpp\<close>: the server side, which hands the cached data to
    its engine (\<open>launch_comparison\<close>, \<open>run_server\<close>).
  \<^item> \<open>src/test/test_sel.cpp\<close>: the test data and inputs.

  Theories and the groups of definitions (each theory opens with its own summary):
  \<^item> \<open>Prelude\<close>: \<open>byte\<close>, \<open>circ_unit\<close> (the 32-bit \<open>CircUnit\<close>), \<open>size_t\<close>; the error
    type \<open>sel_error\<close> (every exception, failed assert and undefined behaviour is an
    \<open>Inl\<close>); \<open>map_at\<close>; the loops \<open>fold_sum\<close>, \<open>map_sum\<close>, \<open>bind_sum\<close> of the error
    monad with their invariant and success lemmas; word-to-nat bridges (\<open>word_nat\<close>).
  \<^item> \<open>Numeric\<close>: \<open>hw\<close>, \<open>ceil_log2\<close>, \<open>hw_size\<close>, \<open>bitbytes\<close>, \<open>llround\<close>, \<open>rescale_weight\<close>.
  \<^item> \<open>Config\<close>: \<open>make_epilink_config\<close> in 64-bit \<open>size_t\<close> words, \<open>set_precisions\<close>,
    \<open>set_ideal_precision\<close>; invariants \<open>groups_ok\<close>, \<open>prec_budget\<close>.
  \<^item> \<open>Input\<close>: client and server inputs, \<open>make_server_input\<close>.
  \<^item> \<open>Printing\<close>: the stream printers of the inputs (\<open>operator<<\<close> in
    \<open>epilink_input.cpp\<close>) as functions to strings, with the readers
    \<open>read_entry\<close> of the round-trip theorem.
  \<^item> \<open>Gadgets\<close>: Dice coefficient, equality, field weights and their sum, quotients,
    the max selector and the tournament reductions of the backend.
  \<^item> \<open>Circuit\<close>: the state of \<open>SELCircuit\<close> as a record (\<open>sel_circuit\<close>, the share map
    \<open>ins\<close> as an association list in key order), \<open>set_constants\<close>, the real and dummy
    input setters and their compositions \<open>set_client_input\<close>, \<open>set_server_input\<close>,
    \<open>set_both_inputs\<close>, with closed forms of their results and errors.
  \<^item> \<open>Permutation\<close>: \<open>std::next_permutation\<close> and the do-while loop over it
    (\<open>perm_loop\<close>, a terminating \<open>function\<close>: the measure is the number of
    permutations above the current one); each step is the least permutation above the
    current one, so the loop visits exactly the permutations not below its start, in
    increasing order, and all of them for a group in its sorted \<open>std::set\<close> order.
  \<^item> \<open>Linkage\<close>: \<open>field_weight\<close>, \<open>best_group_weight\<close>, \<open>link_scores\<close>,
    \<open>build_circuit\<close>, evaluated lane by lane on the joint inputs (a share is the list of
    its lane values; arithmetic wraps at \<open>2^32\<close>), and \<open>merge_parties\<close>, the joint
    execution of the client's and the server's circuits.
  \<^item> \<open>Typing\<close>: the types of the input shares (\<open>share_typed\<close>: lanes, bit widths,
    0/1 flags) and that \<open>set_both_inputs\<close> creates only well-typed shares.
  \<^item> \<open>Clear\<close>: the clear-text reference evaluator of spec 4.3 (\<open>clear_dice\<close>,
    \<open>clear_pair\<close>, \<open>perm_quotients\<close>, \<open>clear_score\<close>, \<open>clear_result\<close>; not under
    \<open>src/\<close>, modelled from the spec) and the refinement theorems: on inputs that fit
    their bitsizes and keep the Dice counts within the 16-bit division circuit, the
    circuit's scores and result are the evaluator's.  Code equations without bound
    variables under maps make the evaluator evaluate by \<open>code_simp\<close>.
  \<^item> \<open>Engine\<close>: \<open>SecureEpilinker\<close> as a record with its operations, \<open>run_joint\<close>
    (\<open>run_as_client\<close> and \<open>run_as_server\<close> executed together), \<open>run_as_both\<close>; the
    lifecycle as \<open>engine_step\<close> over \<open>engine_op\<close> and the inductive \<open>reachable\<close>;
    \<open>LocalServer::run_server\<close> and \<open>launch_comparison\<close>.
  \<^item> \<open>DataHandler\<close>: \<open>poll_database\<close>, \<open>get_database\<close>, a run of operations serialised
    by the mutex (\<open>dh_run\<close>), the debugger flags, the \<open>LocalServer\<close> constructor
    from an \<open>ABYConfig\<close>.
  \<^item> \<open>Server\<close>: the \<open>LocalServer\<close> constructor that reads the
    \<open>ConfigurationHandler\<close> (the handler, not in the sources, is the record of the
    values read), with its members initialised in declaration order, and the getters.
  \<^item> \<open>TestData\<close>, \<open>Scenarios\<close>: the test data, the test inputs and the runs of the
    test, evaluated with the code equations.
  \<^item> This theory: the end-to-end property of the server side, the clear-text example
    of the refinement, and the witnesses.

  What the lemmas show: the configuration's bit budget and its acceptance condition;
  that the setters store exactly the shares of the inputs and fail only on the listed
  errors; that on accepted inputs the circuit raises no exception, returns the lowest
  row of maximal score and reports a match only with a tentative match (under the
  stated 32-bit no-overflow bounds); that a row with score \<open>0/0\<close> in lane 0 always
  wins (a divergence from the spec); that the two-party run equals the debug run; the
  engine's invariant over all reachable states; the register behaviour of the
  \<open>DataHandler\<close>; that the server side completes on well-formed data; that the
  circuit refines the clear-text evaluator; that the input shares are well typed; that
  a printed field entry can be read back; that the \<open>ConfigurationHandler\<close> constructor of
  \<open>LocalServer\<close> reads the remote configuration of a moved-from id (a bug).  The
  test scenarios of \<open>Scenarios\<close> are evaluations of the test's runs, one of which
  contradicts the spec's expected output.

  Bounds: all word arithmetic is kept at its width (\<open>CircUnit\<close> 32 bits, \<open>size_t\<close> 64
  bits, \<open>nvals\<close> narrowed to 32 bits by \<open>nvals32\<close>); the theorems that need
  exact arithmetic state the no-overflow bound as a hypothesis.  The backend is assumed
  to read lane \<open>j\<close> of a SIMD boolean input from the start of row \<open>j\<close>'s bytes
  (\<open>lane_bits\<close>), to keep the low \<open>size_hw\<close> bits of a Hamming weight, and to divide by
  zero to 0 in the 16-bit division circuit.  No fuel is used: every
  loop of the code is a structural recursion, or \<open>perm_loop\<close>, whose termination is
  proved.

  Not modelled: the ABY backend itself (shares, gates, the protocol, the network), whose
  functional contract is taken from the spec; the REST fetch inside
  \<open>poll_database\<close> (its result is an argument); \<open>LinkageJob\<close> (a header, its
  implementation is not in the sources, and the job queue is outside the spec's core);
  \<open>LocalServer::connect_server\<close> (defined but not declared in the class) and the
  shared-pointer getters; the singleton accessors of \<open>DataHandler\<close>; the 64-bit and
  double variants of the clear-text evaluator; logging.
\<close>

subsection \<open>Witnesses\<close>

theorem make_epilink_config_accepts_witness:
  "hw_size (max_bm_size fields_simple) \<le> 15 \<and>
   cl_n2 (length fields_simple) + (15 - hw_size (max_bm_size fields_simple)) \<le> 32 \<and>
   ((\<exists>cfg. make_epilink_config fields_simple [] (9/10) (7/10) False 32 = Inr cfg) \<longleftrightarrow>
    groups_ok fields_simple [])"
proof -
  have h: "hw_size (max_bm_size fields_simple) \<le> 15"
    by (simp add: fields_simple_def) code_simp
  have r: "cl_n2 (length fields_simple) + (15 - hw_size (max_bm_size fields_simple)) \<le> 32"
    by (simp add: fields_simple_def) code_simp
  show ?thesis
    using make_epilink_config_accepts [OF h r, of "[]" "9/10" "7/10" False] h r by simp
qed

theorem make_epilink_config_budget_witness:
  "\<exists>cfg. make_epilink_config fields_simple [] (9/10) (7/10) False 32 = Inr cfg \<and>
     groups_ok fields_simple [] \<and> prec_budget cfg \<and>
     unat (dice_prec cfg) = 14 \<and> unat (weight_prec cfg) = 9"
proof -
  have h: "hw_size (max_bm_size fields_simple) = 1"
    by (simp add: fields_simple_def) code_simp
  have c: "cl_n2 (length fields_simple) = 0"
    by (simp add: fields_simple_def) code_simp
  obtain cfg where eq: "make_epilink_config fields_simple [] (9/10) (7/10) False 32 = Inr cfg"
    using test_config_simple by (auto simp: test_config_def test_threshold_def test_tthreshold_def)
  have "groups_ok fields_simple [] \<and> prec_budget cfg \<and>
        unat (dice_prec cfg) = 15 - hw_size (max_bm_size fields_simple) \<and>
        unat (weight_prec cfg) = (32 - cl_n2 (length fields_simple) - (15 - hw_size (max_bm_size fields_simple))) div 2"
    using make_epilink_config_budget [OF eq] h c by simp
  with eq h c show ?thesis by auto
qed

theorem set_precisions_spec_witness:
  "\<exists>cfg. test_config fields_simple [] = Inr cfg \<and> set_precisions cfg 20 20 = Inl PrecisionOverflow"
proof -
  let ?cfg = "\<lparr>cfg_fields = fields_simple, exchange_groups = [], threshold = 9/10, tthreshold = 7/10,
      matching_mode = False, bitlen = 32, nfields = 1, max_weight = 1,
      dice_prec = 14, weight_prec = 9, size_hw = 1\<rparr>"
  have c: "cl_n2 1 = 0" by code_simp
  have "set_precisions ?cfg 20 20 = Inl PrecisionOverflow"
    using set_precisions_spec [of 20 20 ?cfg] c by simp
  then show ?thesis using test_config_simple by auto
qed

theorem set_ideal_precision_tight_witness:
  "\<exists>cfg cfg'. test_config fields_simple [] = Inr cfg \<and> set_ideal_precision cfg = Inr cfg' \<and>
     unat (dice_prec cfg') + 2 * unat (weight_prec cfg') = 32 \<and>
     unat (dice_prec cfg') \<le> unat (weight_prec cfg') + 1"
proof -
  let ?cfg = "\<lparr>cfg_fields = fields_simple, exchange_groups = [], threshold = 9/10, tthreshold = 7/10,
      matching_mode = False, bitlen = 32, nfields = 1, max_weight = 1,
      dice_prec = 14, weight_prec = 9, size_hw = 1\<rparr>"
  have c: "cl_n2 1 = 0" by code_simp
  obtain cfg' where "set_ideal_precision ?cfg = Inr cfg'"
      and "unat (dice_prec cfg') + 2 * unat (weight_prec cfg') + cl_n2 1 = 32"
      and "unat (dice_prec cfg') \<le> unat (weight_prec cfg') + 1"
    using set_ideal_precision_tight [of ?cfg] c by auto
  then show ?thesis using test_config_simple c by auto
qed

theorem both_inputs_build_total_witness:
  "\<exists>cfg st res. test_config fields_empty [] = Inr cfg \<and>
     set_both_inputs (make_sel_circuit cfg) (fst input_empty) (snd input_empty) = Inr st \<and>
     build_circuit st = Inr res"
proof -
  let ?cfg = "projr (test_config fields_empty [])"
  let ?st = "projr (set_both_inputs (make_sel_circuit ?cfg) (fst input_empty) (snd input_empty))"
  have c: "make_epilink_config fields_empty [] test_threshold test_tthreshold False 32 = Inr ?cfg"
    by code_simp
  have d: "distinct (map fst fields_empty)" by code_simp
  have r: "set_both_inputs (make_sel_circuit ?cfg) (fst input_empty) (snd input_empty) = Inr ?st"
    by code_simp
  obtain res where "build_circuit ?st = Inr res"
    using Linkage.both_inputs_build_total [OF c d r] by blast
  with c r show ?thesis by (auto simp: test_config_def)
qed

theorem build_circuit_first_max_witness:
  "\<exists>cfg st qs r. test_config fields_empty [] = Inr cfg \<and>
     set_both_inputs (make_sel_circuit cfg) (fst input_empty) (snd input_empty) = Inr st \<and>
     link_scores st = Inr qs \<and> build_circuit st = Inr r \<and> res_index r = 1 \<and>
     qrank (qs ! 0) < qrank (qs ! 1)"
proof -
  let ?cfg = "projr (test_config fields_empty [])"
  let ?st = "projr (set_both_inputs (make_sel_circuit ?cfg) (fst input_empty) (snd input_empty))"
  let ?qs = "projr (link_scores ?st)"
  have c: "test_config fields_empty [] = Inr ?cfg" by code_simp
  have r: "set_both_inputs (make_sel_circuit ?cfg) (fst input_empty) (snd input_empty) = Inr ?st"
    by code_simp
  have l: "link_scores ?st = Inr ?qs" by code_simp
  have i: "const_idx ?st = [0..<length ?qs]" by code_simp
  have ne: "?qs \<noteq> []" by code_simp
  have q: "?qs = [\<lparr>num = 418509, den = 511\<rparr>, \<lparr>num = 1046528, den = 511\<rparr>]" by code_simp
  have pos: "\<forall>a\<in>set ?qs. 0 < unat (den a)" by (simp only: q) simp
  have ov: "\<forall>a\<in>set ?qs. \<forall>b\<in>set ?qs. unat (num a) * unat (den b) < 2 ^ 32" by (simp only: q) simp
  obtain res where b: "build_circuit ?st = Inr res" and lt: "res_index res < length ?qs"
    and le: "\<forall>j < length ?qs. qrank (?qs ! j) \<le> qrank (?qs ! res_index res)"
    and first: "\<forall>j < res_index res. qrank (?qs ! j) < qrank (?qs ! res_index res)"
    using Linkage.build_circuit_first_max [OF l i ne pos ov] by blast
  have "qrank (?qs ! 0) < qrank (?qs ! 1)" by (simp only: q) (simp add: qrank_def)
  then have "res_index res = 1" using lt le q by (cases "res_index res") auto
  with c r l b show ?thesis using \<open>qrank (?qs ! 0) < qrank (?qs ! 1)\<close> by blast
qed

theorem build_circuit_empty_lane0_witness:
  "\<exists>cfg st. test_config fields_empty [] = Inr cfg \<and>
     set_both_inputs (make_sel_circuit cfg) (fst input_empty_first_row) (snd input_empty_first_row) = Inr st \<and>
     build_circuit st = Inr \<lparr>res_index = 0, res_match = False, res_tmatch = False, res_num = 0, res_den = 0\<rparr>"
proof -
  let ?cfg = "projr (test_config fields_empty [])"
  let ?st = "projr (set_both_inputs (make_sel_circuit ?cfg) (fst input_empty_first_row) (snd input_empty_first_row))"
  let ?qs = "projr (link_scores ?st)"
  have c: "test_config fields_empty [] = Inr ?cfg" by code_simp
  have r: "set_both_inputs (make_sel_circuit ?cfg) (fst input_empty_first_row) (snd input_empty_first_row) = Inr ?st"
    by code_simp
  have l: "link_scores ?st = Inr ?qs" by code_simp
  have i: "const_idx ?st = [0..<length ?qs]" by code_simp
  have ne: "?qs \<noteq> []" by code_simp
  have n0: "num (hd ?qs) = 0" by code_simp
  have d0: "den (hd ?qs) = 0" by code_simp
  show ?thesis using Linkage.build_circuit_empty_lane0 [OF l i ne n0 d0] c r by blast
qed

theorem build_circuit_match_tmatch_witness:
  "\<exists>cfg st r. test_config fields_simple [] = Inr cfg \<and>
     set_both_inputs (make_sel_circuit cfg) (fst input_simple) (snd input_simple) = Inr st \<and>
     build_circuit st = Inr r \<and> res_match r \<and> res_tmatch r"
proof -
  let ?cfg = "projr (test_config fields_simple [])"
  let ?st = "projr (set_both_inputs (make_sel_circuit ?cfg) (fst input_simple) (snd input_simple))"
  let ?r = "projr (build_circuit ?st)"
  have c: "test_config fields_simple [] = Inr ?cfg" by code_simp
  have s: "set_both_inputs (make_sel_circuit ?cfg) (fst input_simple) (snd input_simple) = Inr ?st"
    by code_simp
  have b: "build_circuit ?st = Inr ?r" by code_simp
  have t: "const_tthreshold ?st \<le> const_threshold ?st" by code_simp
  have o: "unat (const_threshold ?st) * unat (res_den ?r) < 2 ^ 32" by code_simp
  have m: "res_match ?r" by code_simp
  show ?thesis using Linkage.build_circuit_match_tmatch [OF b t o m] c s b m by blast
qed

theorem perm_loop_enumerates_witness:
  "hd (perm_loop [1::nat, 1, 2]) = [1, 1, 2] \<and> sorted_wrt (<) (perm_loop [1::nat, 1, 2]) \<and>
   set (perm_loop [1::nat, 1, 2]) = {q. mset q = mset [1::nat, 1, 2]}"
proof -
  have "sorted [1::nat, 1, 2]" by simp
  then show ?thesis using Permutation.perm_loop_enumerates [of "[1::nat, 1, 2]"] by blast
qed

theorem set_client_input_error_witness:
  "\<exists>cfg. test_config fields_simple [] = Inr cfg \<and>
     set_client_input (make_sel_circuit cfg) (mk_client_input [(''int_1'', Some [1])] 1) = Inl SizeMismatch \<and>
     (\<exists>(i, f)\<in>set (cfg_fields cfg). \<exists>en. map_of [(''int_1'', Some [1::byte])] i = Some en \<and>
        length (entry_value (bitsize f) en) \<noteq> bitbytes (bitsize f))"
proof -
  let ?cfg = "projr (test_config fields_simple [])"
  let ?ci = "mk_client_input [(''int_1'', Some [1])] 1"
  have c: "test_config fields_simple [] = Inr ?cfg" by code_simp
  have e: "set_client_input (make_sel_circuit ?cfg) ?ci = Inl SizeMismatch" by code_simp
  have "(nvals32 (client_nvals ?ci) = 0 \<and> SizeMismatch = AssertFailed) \<or>
    (\<exists>(i, f)\<in>set (cfg_fields (circ_cfg (make_sel_circuit ?cfg))).
       (map_of (client_record ?ci) i = None \<and> SizeMismatch = OutOfRange) \<or>
       (\<exists>en. map_of (client_record ?ci) i = Some en \<and>
          length (entry_value (bitsize f) en) \<noteq> bitbytes (bitsize f) \<and> SizeMismatch = SizeMismatch))"
    by (rule Engine.set_client_input_error [OF e])
  then have "\<exists>(i, f)\<in>set (cfg_fields ?cfg). \<exists>en. map_of [(''int_1'', Some [1::byte])] i = Some en \<and>
        length (entry_value (bitsize f) en) \<noteq> bitbytes (bitsize f)"
    by (auto simp: make_sel_circuit_def mk_client_input_def)
  with c e show ?thesis by blast
qed

theorem set_client_input_shares_witness:
  "\<exists>cfg st'. test_config fields_simple [] = Inr cfg \<and>
     set_client_input (make_sel_circuit cfg) (fst input_simple) = Inr st' \<and>
     map_of (ins st') ''int_1'' = Some \<lparr>client_in = Real (client_value_share 1 cfg (test_field ''int_1'')
                                          (Some (test_value ''int_1''))), server_in = Dummy\<rparr> \<and>
     const_idx st' = [0]"
proof -
  let ?cfg = "projr (test_config fields_simple [])"
  let ?st = "make_sel_circuit ?cfg"
  let ?st' = "projr (set_client_input ?st (fst input_simple))"
  have c: "test_config fields_simple [] = Inr ?cfg" by code_simp
  have d: "distinct (map fst (cfg_fields (circ_cfg ?st)))" by code_simp
  have k: "map fst (ins ?st) = map fst (cfg_fields (circ_cfg ?st))" by code_simp
  have s: "set_client_input ?st (fst input_simple) = Inr ?st'" by code_simp
  have f: "map_of (cfg_fields (circ_cfg ?st)) ''int_1'' = Some (test_field ''int_1'')" by code_simp
  have n: "nvals32 (client_nvals (fst input_simple)) = 1" by code_simp
  have cc: "circ_cfg ?st = ?cfg" by (simp add: make_sel_circuit_def)
  obtain en where en: "map_of (client_record (fst input_simple)) ''int_1'' = Some en"
    and m: "map_of (ins ?st') ''int_1'' = Some \<lparr>client_in = Real (client_value_share (nvals32 (client_nvals (fst input_simple)))
                 (circ_cfg ?st) (test_field ''int_1'') en), server_in = Dummy\<rparr>"
    and i: "const_idx ?st' = [0..<nvals32 (client_nvals (fst input_simple))]"
    using Engine.set_client_input_shares [OF d k s f] by blast
  have "en = Some (test_value ''int_1'')" using en by (simp add: input_simple_def mk_client_input_def)
  then show ?thesis using c s m i n cc by auto
qed

theorem reachable_engine_inv_witness:
  "\<exists>cfg. test_config fields_simple [] = Inr cfg \<and>
     engine_inv cfg (engine_build (make_engine cfg)) \<and> is_built (engine_build (make_engine cfg))"
proof -
  let ?cfg = "projr (test_config fields_simple [])"
  have c: "test_config fields_simple [] = Inr ?cfg" by code_simp
  have "reachable ?cfg (engine_build (make_engine ?cfg))"
    by (rule reachable.step [OF reachable.init, of OpBuild]) simp
  then have "engine_inv ?cfg (engine_build (make_engine ?cfg))" by (rule Engine.reachable_engine_inv)
  with c show ?thesis by (auto simp: engine_build_def)
qed

theorem run_joint_run_as_both_witness:
  "\<exists>cfg. test_config fields_simple [] = Inr cfg \<and>
     (case run_joint (engine_build (make_engine cfg)) (engine_build (make_engine cfg)) (fst input_simple) (snd input_simple)
        of Inl x \<Rightarrow> Inl x | Inr (_, _, r) \<Rightarrow> Inr r) =
     (case run_as_both (engine_build (make_engine cfg)) (fst input_simple) (snd input_simple)
        of Inl x \<Rightarrow> Inl x | Inr (_, r) \<Rightarrow> Inr r)"
proof -
  let ?cfg = "projr (test_config fields_simple [])"
  let ?e = "engine_build (make_engine ?cfg)"
  have c: "test_config fields_simple [] = Inr ?cfg" by code_simp
  have d: "distinct (map fst (cfg_fields (circ_cfg (selc ?e))))" by code_simp
  have n: "nvals32 (client_nvals (fst input_simple)) = nvals32 (server_nvals (snd input_simple))" by code_simp
  show ?thesis using Engine.run_joint_run_as_both [OF d n] c by blast
qed

theorem run_as_both_unbuilt_witness:
  "\<exists>cfg. test_config fields_simple [] = Inr cfg \<and>
     run_as_both (make_engine cfg) (fst input_simple) (snd input_simple) = Inl NotBuilt"
proof -
  let ?cfg = "projr (test_config fields_simple [])"
  have c: "test_config fields_simple [] = Inr ?cfg" by code_simp
  have "\<not> is_built (make_engine ?cfg)" by (simp add: make_engine_def)
  with engine_inv_make_engine [of ?cfg] c show ?thesis
    using Engine.run_as_both_unbuilt by blast
qed

theorem run_as_both_flags_witness:
  "\<exists>cfg e' r. test_config fields_simple [] = Inr cfg \<and>
     run_as_both (engine_build (make_engine cfg)) (fst input_simple) (snd input_simple) = Inr (e', r) \<and>
     is_built e' \<and> \<not> is_setup e' \<and> epicfg e' = cfg"
proof -
  let ?cfg = "projr (test_config fields_simple [])"
  let ?e = "engine_build (make_engine ?cfg)"
  let ?res = "projr (run_as_both ?e (fst input_simple) (snd input_simple))"
  have c: "test_config fields_simple [] = Inr ?cfg" by code_simp
  have r: "run_as_both ?e (fst input_simple) (snd input_simple) = Inr (fst ?res, snd ?res)" by code_simp
  have i: "engine_inv ?cfg ?e"
    using engine_inv_make_engine [of ?cfg] by (simp add: engine_inv_def engine_build_def make_engine_def)
  have "is_built (fst ?res) \<and> \<not> is_setup (fst ?res) \<and> epicfg (fst ?res) = epicfg ?e"
    by (rule Engine.run_as_both_flags [OF i r])
  moreover have "epicfg ?e = ?cfg" by (simp add: engine_build_def make_engine_def)
  ultimately show ?thesis using c r by metis
qed

theorem dh_get_latest_witness:
  "dh_run \<lparr>dh_database = None\<rparr>
     [Poll \<lparr>sd_data = [(''bm_1'', [None, Some [1]])], sd_ids = [''a'', ''b''], sd_todate = 0\<rparr>, Get,
      Poll \<lparr>sd_data = [(''bm_1'', [Some [2]])], sd_ids = [''c''], sd_todate = 1\<rparr>, Get] =
   Inr (\<lparr>dh_database = Some \<lparr>sd_data = [(''bm_1'', [Some [2]])], sd_ids = [''c''], sd_todate = 1\<rparr>\<rparr>,
        [Inl 2, Inr (Some \<lparr>sd_data = [(''bm_1'', [None, Some [1]])], sd_ids = [''a'', ''b''], sd_todate = 0\<rparr>),
         Inl 1, Inr (Some \<lparr>sd_data = [(''bm_1'', [Some [2]])], sd_ids = [''c''], sd_todate = 1\<rparr>)])"
proof -
  let ?d1 = "\<lparr>sd_data = [(''bm_1'', [None, Some [1::byte]])], sd_ids = [''a'', ''b''], sd_todate = 0\<rparr>"
  let ?d2 = "\<lparr>sd_data = [(''bm_1'', [Some [2::byte]])], sd_ids = [''c''], sd_todate = 1\<rparr>"
  let ?ops = "[Poll ?d1, Get, Poll ?d2, Get]"
  have r: "dh_run \<lparr>dh_database = None\<rparr> ?ops =
     Inr (\<lparr>dh_database = Some ?d2\<rparr>, [Inl 2, Inr (Some ?d1), Inl 1, Inr (Some ?d2)])"
    by (simp add: poll_database_def get_database_def)
  have "[Inl 2, Inr (Some ?d1), Inl 1, Inr (Some ?d2)] ! 1 =
        (Inr (last_polled (dh_database \<lparr>dh_database = None\<rparr>) (take 1 ?ops)) :: dh_out) \<and>
        get_database \<lparr>dh_database = Some ?d2\<rparr> = last_polled (dh_database \<lparr>dh_database = None\<rparr>) ?ops"
    by (rule DataHandler.dh_get_latest [OF r]) simp_all
  with r show ?thesis by simp
qed

text \<open>
  Claim C2: End to end on the server side: when the \<open>DataHandler\<close> has polled a database
  whose columns have equal length \<open>n\<close> and whose fields fit the configuration, and the
  client's input is well formed and announces the same \<open>nvals\<close>, the data the server
  reads back and hands to \<open>LocalServer::launch_comparison\<close> runs to a result with the
  client's engine: no exception on any path of \<open>run_server\<close>, \<open>run_as_client\<close>,
  \<open>run_as_server\<close> and the joint circuit.
\<close>

theorem launch_comparison_completes:
  assumes cfg: "make_epilink_config fs gs t tt mm bl = Inr cfg" and d: "distinct (map fst fs)"
    and ice: "engine_inv cfg ce" and bce: "is_built ce" and ils: "engine_inv cfg (ls_engine ls)"
    and poll: "poll_database h sd = Inr (h', n)"
    and si: "make_server_input (sd_data sd) = Inr si"
    and n: "0 < nvals32 n" and nv: "nvals32 (client_nvals ci) = nvals32 n"
    and cok: "client_input_ok fs ci" and sok: "server_input_ok fs si (nvals32 n)"
  shows "\<exists>data ls' ce' r. get_database h' = Some data \<and>
           launch_comparison ls (sd_data data) ce ci = Inr (ls', ce', r)"
proof -
  have c: "cfg_fields cfg = fs" "exchange_groups cfg = gs" and g: "groups_ok fs gs"
    using cfg by (simp_all add: make_epilink_config_Inr Let_def)
  from poll have ne: "sd_data sd \<noteq> []" and gd: "get_database h' = Some sd"
    and nn: "n = length (snd (hd (sd_data sd)))"
    by (auto simp: poll_database_Inr get_database_def)
  from si have sn: "server_nvals si = n" using nn by (simp add: make_server_input_Inr)
  let ?se = "engine_build (ls_engine ls)\<lparr>is_setup := True\<rparr>"
  have ise: "engine_inv cfg ?se" using ils by (simp add: engine_inv_def engine_build_def)
  have bse: "is_built ?se" by (simp add: engine_build_def)
  obtain ce' se' r where j: "run_joint ce ?se ci si = Inr (ce', se', r)"
    using run_joint_total [of cfg ce ?se ci si] g c d ice bce ise bse n nv cok sok sn by auto
  have "launch_comparison ls (sd_data sd) ce ci = Inr (ls\<lparr>ls_data := Some (sd_data sd), ls_engine := engine_reset se'\<rparr>, ce', r)"
    using ne si j
    by (auto simp: launch_comparison_def run_server_def run_setup_phase_def engine_build_def
        split: list.splits)
  with gd show ?thesis by blast
qed

theorem launch_comparison_completes_witness:
  "\<exists>cfg h' n data ls' ce' r. test_config fields_simple [] = Inr cfg \<and>
     poll_database \<lparr>dh_database = None\<rparr>
       \<lparr>sd_data = database (snd input_simple), sd_ids = [''id0''], sd_todate = 0\<rparr> = Inr (h', n) \<and>
     get_database h' = Some data \<and>
     launch_comparison (make_local_server ''remote'' \<lparr>remote_host = ''127.0.0.1'', aby_port = 5676\<rparr> cfg)
       (sd_data data) (engine_build (make_engine cfg)) (fst input_simple) = Inr (ls', ce', r)"
proof -
  let ?cfg = "projr (test_config fields_simple [])"
  let ?sd = "\<lparr>sd_data = database (snd input_simple), sd_ids = [''id0''], sd_todate = 0\<rparr>"
  let ?ls = "make_local_server ''remote'' \<lparr>remote_host = ''127.0.0.1'', aby_port = 5676\<rparr> ?cfg"
  let ?ce = "engine_build (make_engine ?cfg)"
  let ?si = "projr (make_server_input (sd_data ?sd))"
  have c: "test_config fields_simple [] = Inr ?cfg" by code_simp
  then have cfg: "make_epilink_config fields_simple [] test_threshold test_tthreshold False 32 = Inr ?cfg"
    by (simp add: test_config_def)
  have d: "distinct (map fst fields_simple)" by code_simp
  have ice: "engine_inv ?cfg ?ce"
    using engine_inv_make_engine [of ?cfg] by (simp add: engine_inv_def engine_build_def make_engine_def)
  have bce: "is_built ?ce" by (simp add: engine_build_def)
  have ils: "engine_inv ?cfg (ls_engine ?ls)" by (simp add: make_local_server_def engine_inv_make_engine)
  have poll: "poll_database \<lparr>dh_database = None\<rparr> ?sd = Inr (\<lparr>dh_database = Some ?sd\<rparr>, 1)"
    by (simp add: poll_database_def input_simple_def mk_server_input_def)
  have si: "make_server_input (sd_data ?sd) = Inr ?si" by code_simp
  have n: "0 < nvals32 1" by code_simp
  have nv: "nvals32 (client_nvals (fst input_simple)) = nvals32 1" by code_simp
  have cok: "client_input_ok fields_simple (fst input_simple)" by code_simp
  have sok: "server_input_ok fields_simple ?si (nvals32 1)" by code_simp
  obtain data ls' ce' r where "get_database \<lparr>dh_database = Some ?sd\<rparr> = Some data"
    and "launch_comparison ?ls (sd_data data) ?ce (fst input_simple) = Inr (ls', ce', r)"
    using launch_comparison_completes [OF cfg d ice bce ils poll si n nv cok sok] by blast
  with c poll show ?thesis by blast
qed

text \<open>
  The clear-text example: two bitmask fields in one exchange group, a query and a database
  of two rows, the second row equal to the query with the two fields swapped.
\<close>

lemma clear_example:
  "make_epilink_config fields_empty [[''bm_1'', ''bm_2'']] test_threshold test_tthreshold False 32 =
     Inr (projr (test_config fields_empty [[''bm_1'', ''bm_2'']])) \<and>
   distinct (map fst fields_empty) \<and> hw_size (max_bm_size fields_empty) \<le> 15 \<and>
   set_both_inputs (make_sel_circuit (projr (test_config fields_empty [[''bm_1'', ''bm_2'']]))) (mk_client_input [(''bm_1'', Some [0x33]), (''bm_2'', Some [0x43])] 2) (mk_server_input [(''bm_1'', [Some [0x44], Some [0x33]]), (''bm_2'', [Some [0x35], Some [0x43]])]) =
     Inr (projr (set_both_inputs (make_sel_circuit (projr (test_config fields_empty [[''bm_1'', ''bm_2'']]))) (mk_client_input [(''bm_1'', Some [0x33]), (''bm_2'', Some [0x43])] 2) (mk_server_input [(''bm_1'', [Some [0x44], Some [0x33]]), (''bm_2'', [Some [0x35], Some [0x43]])]))) \<and>
   inputs_fit fields_empty (mk_client_input [(''bm_1'', Some [0x33]), (''bm_2'', Some [0x43])] 2) (mk_server_input [(''bm_1'', [Some [0x44], Some [0x33]]), (''bm_2'', [Some [0x35], Some [0x43]])]) \<and>
   nvals32 (client_nvals (mk_client_input [(''bm_1'', Some [0x33]), (''bm_2'', Some [0x43])] 2)) = 2 \<and>
   (\<forall>g\<in>set [[''bm_1'', ''bm_2'']]. \<forall>j < nvals32 (client_nvals (mk_client_input [(''bm_1'', Some [0x33]), (''bm_2'', Some [0x43])] 2)).
      quotients_ok (perm_quotients (projr (test_config fields_empty [[''bm_1'', ''bm_2'']])) (client_record (mk_client_input [(''bm_1'', Some [0x33]), (''bm_2'', Some [0x43])] 2)) (clear_row (database (mk_server_input [(''bm_1'', [Some [0x44], Some [0x33]]), (''bm_2'', [Some [0x35], Some [0x43]])])) j) g)) \<and>
   clear_scores (projr (test_config fields_empty [[''bm_1'', ''bm_2'']])) (mk_client_input [(''bm_1'', Some [0x33]), (''bm_2'', Some [0x43])] 2) (mk_server_input [(''bm_1'', [Some [0x44], Some [0x33]]), (''bm_2'', [Some [0x35], Some [0x43]])]) 2 = [\<lparr>num = 901965, den = 766\<rparr>, \<lparr>num = 1570816, den = 767\<rparr>]"
proof -
  let ?ci = "mk_client_input [(''bm_1'', Some [0x33]), (''bm_2'', Some [0x43])] 2"
  let ?si = "mk_server_input [(''bm_1'', [Some [0x44], Some [0x33]]), (''bm_2'', [Some [0x35], Some [0x43]])]"
  let ?cfg = "projr (test_config fields_empty [[''bm_1'', ''bm_2'']])"
  have c: "test_config fields_empty [[''bm_1'', ''bm_2'']] = Inr ?cfg" by code_simp
  have n: "nvals32 (client_nvals ?ci) = 2" by code_simp
  have q0: "quotients_ok (perm_quotients ?cfg (client_record ?ci) (clear_row (database ?si) 0) [''bm_1'', ''bm_2''])"
    by code_simp
  have q1: "quotients_ok (perm_quotients ?cfg (client_record ?ci) (clear_row (database ?si) 1) [''bm_1'', ''bm_2''])"
    by code_simp
  have "\<forall>g\<in>set [[''bm_1'', ''bm_2'']]. \<forall>j < nvals32 (client_nvals ?ci).
          quotients_ok (perm_quotients ?cfg (client_record ?ci) (clear_row (database ?si) j) g)"
    using q0 q1 n by (auto simp: less_2_cases_iff)
  moreover have "set_both_inputs (make_sel_circuit ?cfg) ?ci ?si =
                   Inr (projr (set_both_inputs (make_sel_circuit ?cfg) ?ci ?si))" by code_simp
  moreover have "distinct (map fst fields_empty)" by code_simp
  moreover have "hw_size (max_bm_size fields_empty) \<le> 15" by code_simp
  moreover have "inputs_fit fields_empty ?ci ?si" by code_simp
  moreover have "clear_scores ?cfg ?ci ?si 2 = [\<lparr>num = 901965, den = 766\<rparr>, \<lparr>num = 1570816, den = 767\<rparr>]"
    by code_simp
  moreover have "make_epilink_config fields_empty [[''bm_1'', ''bm_2'']] test_threshold test_tthreshold False 32 = Inr ?cfg"
    using c by (simp add: test_config_def)
  ultimately show ?thesis using n by blast
qed

theorem link_scores_refines_clear_witness:
  "\<exists>cfg st. test_config fields_empty [[''bm_1'', ''bm_2'']] = Inr cfg \<and>
     set_both_inputs (make_sel_circuit cfg) (mk_client_input [(''bm_1'', Some [0x33]), (''bm_2'', Some [0x43])] 2) (mk_server_input [(''bm_1'', [Some [0x44], Some [0x33]]), (''bm_2'', [Some [0x35], Some [0x43]])]) = Inr st \<and>
     link_scores st = Inr [\<lparr>num = 901965, den = 766\<rparr>, \<lparr>num = 1570816, den = 767\<rparr>]"
proof -
  let ?ci = "mk_client_input [(''bm_1'', Some [0x33]), (''bm_2'', Some [0x43])] 2"
  let ?si = "mk_server_input [(''bm_1'', [Some [0x44], Some [0x33]]), (''bm_2'', [Some [0x35], Some [0x43]])]"
  let ?cfg = "projr (test_config fields_empty [[''bm_1'', ''bm_2'']])"
  let ?st = "projr (set_both_inputs (make_sel_circuit ?cfg) ?ci ?si)"
  from clear_example have cfg: "make_epilink_config fields_empty [[''bm_1'', ''bm_2'']] test_threshold
      test_tthreshold False 32 = Inr ?cfg" and d: "distinct (map fst fields_empty)"
    and h: "hw_size (max_bm_size fields_empty) \<le> 15"
    and r: "set_both_inputs (make_sel_circuit ?cfg) ?ci ?si = Inr ?st"
    and fit: "inputs_fit fields_empty ?ci ?si" and n: "nvals32 (client_nvals ?ci) = 2"
    and q: "\<forall>g\<in>set [[''bm_1'', ''bm_2'']]. \<forall>j < nvals32 (client_nvals ?ci).
              quotients_ok (perm_quotients ?cfg (client_record ?ci) (clear_row (database ?si) j) g)"
    and cs: "clear_scores ?cfg ?ci ?si 2 = [\<lparr>num = 901965, den = 766\<rparr>, \<lparr>num = 1570816, den = 767\<rparr>]"
    by blast+
  have "link_scores ?st = Inr (clear_scores ?cfg ?ci ?si (nvals32 (client_nvals ?ci)))"
    by (rule link_scores_refines_clear [OF cfg d h r fit q])
  moreover have "test_config fields_empty [[''bm_1'', ''bm_2'']] = Inr ?cfg"
    using cfg unfolding test_config_def .
  ultimately show ?thesis using r unfolding n cs by blast
qed

theorem build_circuit_refines_clear_witness:
  "\<exists>cfg st. test_config fields_empty [[''bm_1'', ''bm_2'']] = Inr cfg \<and>
     set_both_inputs (make_sel_circuit cfg) (mk_client_input [(''bm_1'', Some [0x33]), (''bm_2'', Some [0x43])] 2) (mk_server_input [(''bm_1'', [Some [0x44], Some [0x33]]), (''bm_2'', [Some [0x35], Some [0x43]])]) = Inr st \<and>
     build_circuit st = Inr (clear_result cfg (mk_client_input [(''bm_1'', Some [0x33]), (''bm_2'', Some [0x43])] 2) (mk_server_input [(''bm_1'', [Some [0x44], Some [0x33]]), (''bm_2'', [Some [0x35], Some [0x43]])]) 2) \<and>
     res_index (clear_result cfg (mk_client_input [(''bm_1'', Some [0x33]), (''bm_2'', Some [0x43])] 2) (mk_server_input [(''bm_1'', [Some [0x44], Some [0x33]]), (''bm_2'', [Some [0x35], Some [0x43]])]) 2) = 1"
proof -
  let ?ci = "mk_client_input [(''bm_1'', Some [0x33]), (''bm_2'', Some [0x43])] 2"
  let ?si = "mk_server_input [(''bm_1'', [Some [0x44], Some [0x33]]), (''bm_2'', [Some [0x35], Some [0x43]])]"
  let ?cfg = "projr (test_config fields_empty [[''bm_1'', ''bm_2'']])"
  let ?st = "projr (set_both_inputs (make_sel_circuit ?cfg) ?ci ?si)"
  from clear_example have cfg: "make_epilink_config fields_empty [[''bm_1'', ''bm_2'']] test_threshold
      test_tthreshold False 32 = Inr ?cfg" and d: "distinct (map fst fields_empty)"
    and h: "hw_size (max_bm_size fields_empty) \<le> 15"
    and r: "set_both_inputs (make_sel_circuit ?cfg) ?ci ?si = Inr ?st"
    and fit: "inputs_fit fields_empty ?ci ?si" and n: "nvals32 (client_nvals ?ci) = 2"
    and q: "\<forall>g\<in>set [[''bm_1'', ''bm_2'']]. \<forall>j < nvals32 (client_nvals ?ci).
              quotients_ok (perm_quotients ?cfg (client_record ?ci) (clear_row (database ?si) j) g)"
    and cs: "clear_scores ?cfg ?ci ?si 2 = [\<lparr>num = 901965, den = 766\<rparr>, \<lparr>num = 1570816, den = 767\<rparr>]"
    by blast+
  have qs: "quotients_ok (clear_scores ?cfg ?ci ?si (nvals32 (client_nvals ?ci)))"
    unfolding n cs by code_simp
  have i: "res_index (clear_result ?cfg ?ci ?si 2) = 1"
    unfolding clear_result_def cs by code_simp
  have "build_circuit ?st = Inr (clear_result ?cfg ?ci ?si (nvals32 (client_nvals ?ci)))"
    by (rule build_circuit_refines_clear [OF cfg d h r fit q qs])
  moreover have "test_config fields_empty [[''bm_1'', ''bm_2'']] = Inr ?cfg"
    using cfg unfolding test_config_def .
  ultimately show ?thesis using r i unfolding n by blast
qed


theorem local_server_ignores_remote_config_witness:
  "make_local_server_ch ''remote'' ''127.0.0.1'' 5676
     ((\<lparr>ch_server_config = \<lparr>boolean_sharing = True, aby_threads = 1\<rparr>, ch_local_config = \<lparr>lc_fields = fields_simple, lc_exchange_groups = []\<rparr>, ch_algorithm_config = \<lparr>threshold_match = test_threshold, threshold_non_match = test_tthreshold\<rparr>, ch_remote_configs = []\<rparr>)\<lparr>ch_remote_configs := [(''remote'', \<lparr>rc_matching_mode = False\<rparr>)]\<rparr>) = Inl OutOfRange"
proof -
  have "make_local_server_ch ''remote'' ''127.0.0.1'' 5676
          ((\<lparr>ch_server_config = \<lparr>boolean_sharing = True, aby_threads = 1\<rparr>, ch_local_config = \<lparr>lc_fields = fields_simple, lc_exchange_groups = []\<rparr>, ch_algorithm_config = \<lparr>threshold_match = test_threshold, threshold_non_match = test_tthreshold\<rparr>, ch_remote_configs = []\<rparr>)\<lparr>ch_remote_configs := (''remote'', \<lparr>rc_matching_mode = False\<rparr>) #
             ch_remote_configs (\<lparr>ch_server_config = \<lparr>boolean_sharing = True, aby_threads = 1\<rparr>, ch_local_config = \<lparr>lc_fields = fields_simple, lc_exchange_groups = []\<rparr>, ch_algorithm_config = \<lparr>threshold_match = test_threshold, threshold_non_match = test_tthreshold\<rparr>, ch_remote_configs = []\<rparr>)\<rparr>) =
        make_local_server_ch ''remote'' ''127.0.0.1'' 5676 (\<lparr>ch_server_config = \<lparr>boolean_sharing = True, aby_threads = 1\<rparr>, ch_local_config = \<lparr>lc_fields = fields_simple, lc_exchange_groups = []\<rparr>, ch_algorithm_config = \<lparr>threshold_match = test_threshold, threshold_non_match = test_tthreshold\<rparr>, ch_remote_configs = []\<rparr>)"
    by (rule local_server_ignores_remote_config) simp
  moreover have "make_local_server_ch ''remote'' ''127.0.0.1'' 5676 (\<lparr>ch_server_config = \<lparr>boolean_sharing = True, aby_threads = 1\<rparr>, ch_local_config = \<lparr>lc_fields = fields_simple, lc_exchange_groups = []\<rparr>, ch_algorithm_config = \<lparr>threshold_match = test_threshold, threshold_non_match = test_tthreshold\<rparr>, ch_remote_configs = []\<rparr>) = Inl OutOfRange"
    by (rule make_local_server_ch_unknown) simp
  ultimately show ?thesis by simp
qed

theorem print_entry_roundtrip_witness:
  "read_entry (print_entry (Some [0x33, 0x43])) = Some [0x33, 0x43]"
  by (rule print_entry_roundtrip) simp

theorem set_both_inputs_typed_witness:
  "\<exists>cfg st'. test_config fields_simple [] = Inr cfg \<and>
     set_both_inputs (make_sel_circuit cfg) (fst input_simple) (snd input_simple) = Inr st' \<and>
     list_all (\<lambda>(i, f). \<exists>s c v. map_of (ins st') i = Some s \<and>
           client_in s = Real c \<and> server_in s = Real v \<and>
           share_typed (circ_cfg st') (sc_nvals st') f c \<and> share_typed (circ_cfg st') (sc_nvals st') f v)
       (cfg_fields (circ_cfg st'))"
proof -
  let ?cfg = "projr (test_config fields_simple [])"
  let ?st = "make_sel_circuit ?cfg"
  let ?st' = "projr (set_both_inputs ?st (fst input_simple) (snd input_simple))"
  have c: "test_config fields_simple [] = Inr ?cfg" by code_simp
  have d: "distinct (map fst (cfg_fields (circ_cfg ?st)))" by code_simp
  have k: "map fst (ins ?st) = map fst (cfg_fields (circ_cfg ?st))" by code_simp
  have r: "set_both_inputs ?st (fst input_simple) (snd input_simple) = Inr ?st'" by code_simp
  show ?thesis using set_both_inputs_typed [OF d k r] c r by blast
qed

end
